theory Spec2Isabelle
  imports Main "HOL-Library.AList"
begin

section \<open>Strings\<close>

text \<open>
  JavaScript strings are modelled as \<^typ>\<open>string\<close>; the configuration keys and
  specifiers handled by \<^verbatim>\<open>config.ts\<close> are ASCII text.

  \<^verbatim>\<open>String.prototype.split(sep)\<close> with a one-character separator cuts at every
  occurrence of the separator and always returns at least one segment
  (\<^verbatim>\<open>"".split("@")\<close> is \<^verbatim>\<open>[""]\<close>).
\<close>

primrec split_on :: "char \<Rightarrow> string \<Rightarrow> string list" where
  "split_on sep [] = [[]]"
| "split_on sep (c # cs) =
     (if c = sep then [] # split_on sep cs
      else (c # hd (split_on sep cs)) # tl (split_on sep cs))"

text \<open>
  \<^verbatim>\<open>String.prototype.trim\<close> removes white space and line terminators from both
  ends. In the ASCII range these are tab, line feed, vertical tab, form feed,
  carriage return and space.
\<close>

definition is_space :: "char \<Rightarrow> bool" where
  "is_space c \<longleftrightarrow> c \<in> {CHR 0x09, CHR 0x0A, CHR 0x0B, CHR 0x0C, CHR 0x0D, CHR 0x20}"

definition trim :: "string \<Rightarrow> string" where
  "trim s = rev (dropWhile is_space (rev (dropWhile is_space s)))"

text \<open>\<^verbatim>\<open>String.prototype.includes\<close>: the argument occurs as a contiguous substring.\<close>

fun includes_str :: "string \<Rightarrow> string \<Rightarrow> bool" where
  "includes_str [] sub = (sub = [])"
| "includes_str (c # cs) sub = (take (length sub) (c # cs) = sub \<or> includes_str cs sub)"

section \<open>Service specifiers and API keys\<close>

text \<open>
  \<^verbatim>\<open>parseServiceSpecificer\<close> (config.ts, lines 168--174):
  \<^verbatim>\<open>const [id, tag] = specifier.split("@").map(x => x.trim()); return [id, tag];\<close>
  The array destructuring takes the first two segments; \<^verbatim>\<open>tag\<close> is
  \<^verbatim>\<open>undefined\<close> (here \<^term>\<open>None\<close>) when there is only one segment. The
  empty list of segments cannot occur.
\<close>

definition parseServiceSpecificer :: "string \<Rightarrow> string \<times> string option" where
  "parseServiceSpecificer specifier =
     (case map trim (split_on CHR ''@'' specifier) of
        [] \<Rightarrow> ([], None)
      | [i] \<Rightarrow> (i, None)
      | i # t # _ \<Rightarrow> (i, Some t))"

text \<open>
  The parser as the specification words it (section 4.1): split on the first
  \<^verbatim>\<open>@\<close>, trim both parts, no tag when there is no \<^verbatim>\<open>@\<close>. It is compared with
  \<^const>\<open>parseServiceSpecificer\<close> below.
\<close>

definition spec_SpecifierParser :: "string \<Rightarrow> string \<times> string option" where
  "spec_SpecifierParser s =
     (if CHR ''@'' \<in> set s
      then (trim (takeWhile (\<lambda>c. c \<noteq> CHR ''@'') s),
            Some (trim (tl (dropWhile (\<lambda>c. c \<noteq> CHR ''@'') s))))
      else (trim s, None))"

text \<open>
  \<^verbatim>\<open>getServiceFromKey\<close> (config.ts, lines 266--272): for a truthy key,
  \<^verbatim>\<open>const [type, service] = key.split(":"); if (type === "service") return service;\<close>
  and \<^verbatim>\<open>undefined\<close> otherwise. \<^verbatim>\<open>service\<close> is itself \<^verbatim>\<open>undefined\<close> when the key
  has no colon.
\<close>

definition getServiceFromKey :: "string option \<Rightarrow> string option" where
  "getServiceFromKey key =
     (case key of
        None \<Rightarrow> None
      | Some k \<Rightarrow>
          if k = [] then None
          else (case split_on CHR '':'' k of
                  [] \<Rightarrow> None
                | [t] \<Rightarrow> None
                | t # service # _ \<Rightarrow> if t = ''service'' then Some service else None))"

section \<open>JavaScript values\<close>

text \<open>
  Configuration documents are JSON-like data: what a \<^verbatim>\<open>package.json\<close> entry or the
  export of an \<^verbatim>\<open>apollo.config.js\<close> module holds. Numbers are restricted to
  integers (the only numbers of this file are \<^verbatim>\<open>-0\<close> and \<^verbatim>\<open>-86400\<close>; \<^verbatim>\<open>-0\<close>
  is \<^term>\<open>JNum 0\<close>). An object is the list of its own properties in
  insertion order; it denotes a JavaScript object when its keys are distinct
  (\<open>wf_json\<close> below).
\<close>

datatype json =
    JUndefined
  | JNull
  | JBool bool
  | JNum int
  | JStr string
  | JArr "json list"
  | JObj "(string \<times> json) list"

text \<open>Truthiness, as \<^verbatim>\<open>if (x)\<close>, \<^verbatim>\<open>!!x\<close>, \<^verbatim>\<open>x && y\<close> and \<^verbatim>\<open>x || y\<close> test it.\<close>

fun truthy :: "json \<Rightarrow> bool" where
  "truthy JUndefined = False"
| "truthy JNull = False"
| "truthy (JBool b) = b"
| "truthy (JNum n) = (n \<noteq> 0)"
| "truthy (JStr s) = (s \<noteq> [])"
| "truthy (JArr xs) = True"
| "truthy (JObj ps) = True"

fun nullish :: "json \<Rightarrow> bool" where
  "nullish JUndefined = True"
| "nullish JNull = True"
| "nullish _ = False"

text \<open>
  Property read \<^verbatim>\<open>x.k\<close> for the keys this file reads (\<^verbatim>\<open>client\<close>, \<^verbatim>\<open>service\<close>,
  \<^verbatim>\<open>engine\<close>, \<^verbatim>\<open>name\<close> and the keys of configuration blocks): an absent key
  reads as \<^verbatim>\<open>undefined\<close>, and so does any of these keys on an array, a string, a
  number or a boolean. Reading a property of \<^verbatim>\<open>undefined\<close> or \<^verbatim>\<open>null\<close> throws a
  TypeError; the functions below test \<^const>\<open>nullish\<close> before they read.
\<close>

fun get_prop :: "json \<Rightarrow> string \<Rightarrow> json" where
  "get_prop (JObj ps) k = (case map_of ps k of Some v \<Rightarrow> v | None \<Rightarrow> JUndefined)"
| "get_prop _ k = JUndefined"

fun get_path :: "json \<Rightarrow> string list \<Rightarrow> json" where
  "get_path v [] = v"
| "get_path v (k # ks) = get_path (get_prop v k) ks"

text \<open>A value of TypeScript type \<^verbatim>\<open>string | undefined\<close>.\<close>

definition of_string_option :: "string option \<Rightarrow> json" where
  "of_string_option x = (case x of None \<Rightarrow> JUndefined | Some s \<Rightarrow> JStr s)"

text \<open>\<^verbatim>\<open>a || b\<close> on values of type \<^verbatim>\<open>string | undefined\<close>.\<close>

definition or_else :: "string option \<Rightarrow> string option \<Rightarrow> string option" where
  "or_else a b = (case a of None \<Rightarrow> b | Some s \<Rightarrow> if s \<noteq> [] then Some s else b)"

text \<open>Truthiness of a value of type \<^verbatim>\<open>string | undefined\<close>.\<close>

definition nonempty :: "string option \<Rightarrow> bool" where
  "nonempty a = (case a of None \<Rightarrow> False | Some s \<Rightarrow> s \<noteq> [])"

text \<open>The decimal numeral of an array index, as a property key.\<close>

fun index_key :: "nat \<Rightarrow> string" where
  "index_key n =
     (if n < 10 then [char_of (48 + n)]
      else index_key (n div 10) @ [char_of (48 + n mod 10)])"

text \<open>
  The own enumerable properties of a value, in enumeration order: what an object
  spread \<^verbatim>\<open>{...x}\<close> copies and what lodash's \<^verbatim>\<open>keysIn\<close> iteration visits. Numbers,
  booleans, \<^verbatim>\<open>null\<close> and \<^verbatim>\<open>undefined\<close> have none; arrays and strings have their
  indices.
\<close>

fun own_props :: "json \<Rightarrow> (string \<times> json) list" where
  "own_props (JObj ps) = ps"
| "own_props (JArr xs) = zip (map index_key [0..<length xs]) xs"
| "own_props (JStr s) = zip (map index_key [0..<length s]) (map (\<lambda>c. JStr [c]) s)"
| "own_props _ = []"

text \<open>
  \<^verbatim>\<open>{...acc, ...x}\<close>: every own property of \<^verbatim>\<open>x\<close> is assigned in turn. An assignment
  to an existing key replaces the value in place, a new key goes last
  (\<^const>\<open>AList.update\<close>).
\<close>

definition spread :: "(string \<times> json) list \<Rightarrow> json \<Rightarrow> (string \<times> json) list" where
  "spread acc x = fold (\<lambda>(k, v). AList.update k v) (own_props x) acc"

text \<open>An object denotes a JavaScript object when its keys are distinct, at every depth.\<close>

fun wf_json :: "json \<Rightarrow> bool" where
  "wf_json (JArr xs) = (\<forall>x \<in> set xs. wf_json x)"
| "wf_json (JObj ps) = (distinct (map fst ps) \<and> (\<forall>p \<in> set ps. wf_json (snd p)))"
| "wf_json _ = True"

fun is_scalar :: "json \<Rightarrow> bool" where
  "is_scalar JNull = True"
| "is_scalar (JBool b) = True"
| "is_scalar (JNum n) = True"
| "is_scalar (JStr s) = True"
| "is_scalar _ = False"

section \<open>The merge of lodash/fp\<close>

text \<open>
  \<^verbatim>\<open>config.ts\<close> imports \<^verbatim>\<open>merge\<close> from \<^verbatim>\<open>lodash/fp\<close>. The library is not part of the
  repository; it is modelled from its documented behaviour (lodash 4.17):
  ``recursively merges own and inherited enumerable string keyed properties of
  source objects into the destination object. Source properties that resolve to
  undefined are skipped if a destination value exists. Array and plain object
  properties are merged recursively. Other objects and value types are
  overridden by assignment.''

  \<open>mergeValue objValue srcValue\<close> is the value a key of the destination holds
  after the source's property \<open>srcValue\<close> was merged onto the destination's
  \<open>objValue\<close> (\<^term>\<open>JUndefined\<close> when the destination has no such key):
  \<^item> a source array is merged index by index into the destination's array, or
    into a fresh \<^verbatim>\<open>[]\<close> when the destination holds no array;
  \<^item> a source plain object is merged key by key into the destination's object,
    or into a fresh \<^verbatim>\<open>{}\<close> when the destination holds no object;
  \<^item> a source \<^verbatim>\<open>undefined\<close> leaves the destination as it is (and creates the key
    when it is absent);
  \<^item> any other source value is assigned.

  \<open>merge_props\<close> is the loop over the source's properties, \<open>merge_elems\<close> the
  loop over a source array.

  Two combinations leave JSON data and are outside this model: a plain object
  merged onto an array (lodash assigns the object's properties to the array
  object itself), and an array merged onto an array-like plain object (one with
  a numeric \<^verbatim>\<open>length\<close> property, which lodash copies into an array first). The
  predicate \<open>mergeable\<close> below excludes them. Neither occurs for a document of
  the types \<^verbatim>\<open>ClientConfigFormat\<close> and \<^verbatim>\<open>ServiceConfigFormat\<close>, whose
  \<^verbatim>\<open>includes\<close>, \<^verbatim>\<open>excludes\<close> and directive lists are string arrays.
\<close>

fun mergeValue :: "json \<Rightarrow> json \<Rightarrow> json"
  and merge_props :: "(string \<times> json) list \<Rightarrow> (string \<times> json) list \<Rightarrow> (string \<times> json) list"
  and merge_elems :: "json list \<Rightarrow> json list \<Rightarrow> json list" where
  "mergeValue objValue (JArr ys) =
     JArr (merge_elems (case objValue of JArr xs \<Rightarrow> xs | _ \<Rightarrow> []) ys)"
| "mergeValue objValue (JObj ps) =
     (case objValue of
        JObj os \<Rightarrow> JObj (merge_props os ps)
      | JArr xs \<Rightarrow> JArr xs
      | _ \<Rightarrow> JObj (merge_props [] ps))"
| "mergeValue objValue JUndefined = objValue"
| "mergeValue objValue srcValue = srcValue"
| "merge_props os [] = os"
| "merge_props os ((k, v) # ps) =
     merge_props (AList.update k (mergeValue (get_prop (JObj os) k) v) os) ps"
| "merge_elems xs [] = xs"
| "merge_elems xs (y # ys) =
     mergeValue (case xs of [] \<Rightarrow> JUndefined | x # _ \<Rightarrow> x) y # merge_elems (tl xs) ys"

text \<open>lodash's \<^verbatim>\<open>isArrayLike\<close> on a plain object: a \<^verbatim>\<open>length\<close> that is a valid length.\<close>

definition array_like :: "(string \<times> json) list \<Rightarrow> bool" where
  "array_like os =
     (case map_of os ''length'' of
        Some (JNum n) \<Rightarrow> 0 \<le> n \<and> n \<le> 9007199254740991
      | _ \<Rightarrow> False)"

text \<open>
  \<open>mergeable objValue srcValue\<close>: merging \<open>srcValue\<close> onto \<open>objValue\<close> never
  meets one of the two combinations that leave JSON data.
\<close>

fun mergeable :: "json \<Rightarrow> json \<Rightarrow> bool"
  and mergeable_props :: "(string \<times> json) list \<Rightarrow> (string \<times> json) list \<Rightarrow> bool"
  and mergeable_elems :: "json list \<Rightarrow> json list \<Rightarrow> bool" where
  "mergeable objValue (JArr ys) =
     (case objValue of
        JArr xs \<Rightarrow> mergeable_elems xs ys
      | JObj os \<Rightarrow> \<not> array_like os
      | _ \<Rightarrow> True)"
| "mergeable objValue (JObj ps) =
     (case objValue of
        JObj os \<Rightarrow> mergeable_props os ps
      | JArr xs \<Rightarrow> False
      | _ \<Rightarrow> True)"
| "mergeable objValue srcValue = True"
| "mergeable_props os [] = True"
| "mergeable_props os ((k, v) # ps) =
     (mergeable (get_prop (JObj os) k) v \<and> mergeable_props os ps)"
| "mergeable_elems xs [] = True"
| "mergeable_elems xs (y # ys) =
     (mergeable (case xs of [] \<Rightarrow> JUndefined | x # _ \<Rightarrow> x) y \<and> mergeable_elems (tl xs) ys)"

text \<open>
  \<^verbatim>\<open>_.merge(object, source)\<close> with a plain object as destination: a falsy source
  is skipped, otherwise its own properties are merged in.
\<close>

definition merge_into :: "(string \<times> json) list \<Rightarrow> json \<Rightarrow> (string \<times> json) list" where
  "merge_into object source =
     (if truthy source then merge_props object (own_props source) else object)"

text \<open>
  The \<^verbatim>\<open>lodash/fp\<close> variant does not mutate its first argument: \<^verbatim>\<open>merge(a, b)\<close> is
  \<^verbatim>\<open>_.merge(_.merge({}, a), b)\<close>. Properties of \<open>b\<close> win over properties of \<open>a\<close>.
\<close>

definition merge :: "json \<Rightarrow> json \<Rightarrow> json" where
  "merge a b = JObj (merge_into (merge_into [] a) b)"

declare index_key.simps [simp del]

section \<open>Built-in defaults\<close>

text \<open>The constants of config.ts, lines 21--24, 47--55, 81--88 and 96--101.\<close>

definition DefaultEngineStatsWindow :: json where
  "DefaultEngineStatsWindow = JObj [(''to'', JNum 0), (''from'', JNum (- 86400))]"

definition DefaultEngineConfig :: json where
  "DefaultEngineConfig =
     JObj [(''endpoint'', JStr ''https://engine-graphql.apollographql.com/api/graphql''),
           (''frontend'', JStr ''https://engine.apollographql.com'')]"

definition DefaultConfigBase :: json where
  "DefaultConfigBase =
     JObj [(''includes'', JArr [JStr ''src/**/*.{ts,tsx,js,jsx,graphql}'']),
           (''excludes'', JArr [JStr ''**/node_modules'', JStr ''**/__tests__''])]"

definition DefaultClientConfig :: json where
  "DefaultClientConfig =
     JObj (spread [] DefaultConfigBase @
           [(''tagName'', JStr ''gql''),
            (''clientOnlyDirectives'', JArr [JStr ''connection'', JStr ''type'']),
            (''clientSchemaDirectives'', JArr [JStr ''client'', JStr ''rest'']),
            (''addTypename'', JBool True),
            (''statsWindow'', DefaultEngineStatsWindow)])"

definition DefaultServiceConfig :: json where
  "DefaultServiceConfig =
     JObj (spread [] DefaultConfigBase @
           [(''endpoint'', JObj [(''url'', JStr ''http://localhost:4000/graphql'')])])"

definition MODULE_NAME :: string where
  "MODULE_NAME = ''apollo''"

definition defaultSearchPlaces :: "string list" where
  "defaultSearchPlaces =
     [''package.json'', MODULE_NAME @ ''.config.js'', MODULE_NAME @ ''.config.ts'']"

definition getSearchPlaces :: "string option \<Rightarrow> string list" where
  "getSearchPlaces configFile =
     (if nonempty configFile then [the configFile] else []) @ defaultSearchPlaces"

section \<open>ApolloConfig\<close>

text \<open>
  A \<^verbatim>\<open>vscode-uri\<close> URI is represented by its \<^verbatim>\<open>fsPath\<close>, the only member
  \<^verbatim>\<open>config.ts\<close> reads. \<^verbatim>\<open>URI.file\<close> takes a file system path as it is: for the
  absolute POSIX path that \<^verbatim>\<open>path.resolve\<close> returns, the \<^verbatim>\<open>fsPath\<close> of the result
  is that path (unless it begins like a Windows drive, \<^verbatim>\<open>/c:\<close>, which
  \<^verbatim>\<open>vscode-uri\<close> rewrites).

  \<^verbatim>\<open>URI.parse\<close> is different: it reads its argument as a URI reference, cuts it
  into scheme, authority, path, query and fragment and percent-decodes them, so
  the \<^verbatim>\<open>fsPath\<close> of its result is the argument only when the argument has none
  of these parts, and it may throw (on an escape that cannot be decoded). The
  library is not part of the repository, and \<^verbatim>\<open>URI.parse\<close> is a parameter of the
  one function that calls it (\<open>configDirURI\<close> below): a function from strings
  to an exception or a URI.
\<close>

record URI =
  fsPath :: string

definition URI_file :: "string \<Rightarrow> URI" where
  "URI_file p = \<lparr>fsPath = p\<rparr>"

text \<open>
  Node's POSIX \<^verbatim>\<open>path.dirname\<close>: scanning from the last character down to index
  1, the first slash that follows (leftwards) a non-slash character ends the
  directory part.
\<close>

fun dirname_scan :: "string \<Rightarrow> nat \<Rightarrow> bool \<Rightarrow> nat option" where
  "dirname_scan path 0 matchedSlash = None"
| "dirname_scan path (Suc i) matchedSlash =
     (if path ! Suc i = CHR ''/''
      then (if \<not> matchedSlash then Some (Suc i) else dirname_scan path i matchedSlash)
      else dirname_scan path i False)"

definition dirname :: "string \<Rightarrow> string" where
  "dirname path =
     (if path = [] then ''.''
      else (case dirname_scan path (length path - 1) True of
              None \<Rightarrow> if hd path = CHR ''/'' then ''/'' else ''.''
            | Some e \<Rightarrow> if hd path = CHR ''/'' \<and> e = 1 then ''//'' else take e path))"

datatype error =
    NoConfigFound
  | UnresolvedProjectType
  | EmptyConfig string
  | TypeError

text \<open>
  The class \<^verbatim>\<open>ApolloConfig\<close> (config.ts, lines 191--242). The private field
  \<^verbatim>\<open>_tag\<close> is \<open>private_tag\<close>.
\<close>

record ApolloConfig =
  rawConfig :: json
  configURI :: "URI option"
  isClient :: bool
  isService :: bool
  engine :: json
  name :: json
  service :: json
  client :: json
  private_tag :: "string option"

text \<open>\<^verbatim>\<open>getServiceName\<close> (config.ts, lines 176--189).\<close>

definition getServiceName :: "json \<Rightarrow> json" where
  "getServiceName cfg =
     (if truthy (get_prop cfg ''service'') then get_prop (get_prop cfg ''service'') ''name''
      else if truthy (get_prop cfg ''client'') then
        (case get_prop (get_prop cfg ''client'') ''service'' of
           JStr s \<Rightarrow> JStr (fst (parseServiceSpecificer s))
         | sv \<Rightarrow> if truthy sv then get_prop sv ''name'' else sv)
      else JUndefined)"

text \<open>
  The constructor (lines 200--207). Reading \<^verbatim>\<open>rawConfig.service\<close> of a
  \<^verbatim>\<open>null\<close> or \<^verbatim>\<open>undefined\<close> document throws.
\<close>

definition new_ApolloConfig :: "json \<Rightarrow> URI option \<Rightarrow> error + ApolloConfig" where
  "new_ApolloConfig raw uri =
     (if nullish raw then Inl TypeError
      else Inr \<lparr>rawConfig = raw,
                configURI = uri,
                isClient = truthy (get_prop raw ''client''),
                isService = truthy (get_prop raw ''service''),
                engine = get_prop raw ''engine'',
                name = getServiceName raw,
                service = get_prop raw ''service'',
                client = get_prop raw ''client'',
                private_tag = None\<rparr>)"

text \<open>
  The getter \<^verbatim>\<open>configDirURI\<close> (lines 209--213); its first argument is
  \<^verbatim>\<open>URI.parse\<close>, whose exception, if any, is the getter's.
\<close>

definition configDirURI :: "(string \<Rightarrow> 'e + URI) \<Rightarrow> ApolloConfig \<Rightarrow> 'e + URI option" where
  "configDirURI URI_parse this =
     (case configURI this of
        None \<Rightarrow> Inr None
      | Some u \<Rightarrow>
          if includes_str (fsPath u) ''.js''
          then map_sum id Some (URI_parse (dirname (fsPath u)))
          else Inr (Some u))"

text \<open>
  The accessors of \<^verbatim>\<open>tag\<close> (lines 219--232). The getter assigns nothing: it
  returns a truthy \<^verbatim>\<open>_tag\<close>, and otherwise derives the tag from the current
  \<^verbatim>\<open>client\<close> block.
\<close>

definition set_tag :: "string \<Rightarrow> ApolloConfig \<Rightarrow> ApolloConfig" where
  "set_tag t this = this\<lparr>private_tag := Some t\<rparr>"

definition get_tag :: "ApolloConfig \<Rightarrow> string" where
  "get_tag this =
     (if nonempty (private_tag this) then the (private_tag this)
      else if truthy (client this) then
        (case get_prop (client this) ''service'' of
           JStr s \<Rightarrow>
             (let specifierTag = snd (parseServiceSpecificer s)
              in if nonempty specifierTag then the specifierTag else ''current'')
         | _ \<Rightarrow> ''current'')
      else ''current'')"

text \<open>
  \<^verbatim>\<open>setDefaults\<close> (lines 235--241). The parameter is destructured, which throws
  for \<^verbatim>\<open>null\<close> and \<^verbatim>\<open>undefined\<close> before anything is assigned. The result is the
  exception, if any, and the object after the call.
\<close>

definition setDefaults :: "json \<Rightarrow> ApolloConfig \<Rightarrow> error option \<times> ApolloConfig" where
  "setDefaults partial this =
     (if nullish partial then (Some TypeError, this)
      else
        let cfg = merge (rawConfig this)
                    (JObj [(''client'', get_prop partial ''client''),
                           (''engine'', get_prop partial ''engine''),
                           (''service'', get_prop partial ''service'')]);
            this1 = this\<lparr>rawConfig := cfg,
                         client := get_prop cfg ''client'',
                         service := get_prop cfg ''service''\<rparr>
        in (None,
            if truthy (get_prop partial ''engine'')
            then this1\<lparr>engine := get_prop cfg ''engine''\<rparr>
            else this1))"

section \<open>Loading a configuration\<close>

text \<open>
  What \<^verbatim>\<open>loadConfig\<close> takes from outside: the result of cosmiconfig's
  \<^verbatim>\<open>explorer.search\<close> (\<^verbatim>\<open>ConfigResult\<close>, lines 147--151; only the truthiness of
  \<^verbatim>\<open>isEmpty\<close> is read), the parsed \<^verbatim>\<open>.env\<close> file when it exists, the working
  directory and Node's \<^verbatim>\<open>path.resolve\<close>.

  cosmiconfig sets \<^verbatim>\<open>isEmpty\<close> only on the result of an empty file, whose
  \<^verbatim>\<open>config\<close> is \<^verbatim>\<open>undefined\<close>, and with the options of line 282 its search passes
  over such a file. A search result of the program is therefore either none or a
  document that is not \<^verbatim>\<open>undefined\<close> with no \<^verbatim>\<open>isEmpty\<close> flag; a document written
  as \<^verbatim>\<open>{}\<close> is such a result, with \<^verbatim>\<open>config\<close> the empty object. The record below
  does not build this in: \<^verbatim>\<open>loadConfig\<close> is modelled on every value of the
  declared type.
\<close>

record ConfigResult =
  config :: json
  filepath :: string
  isEmpty :: bool

record environment =
  search :: "string list \<Rightarrow> string option \<Rightarrow> ConfigResult option"
  dotenv :: "string \<Rightarrow> (string \<Rightarrow> string option) option"
  cwd :: string
  resolve :: "string list \<Rightarrow> string"

datatype project_type = Client | Service

text \<open>
  \<^verbatim>\<open>LoadConfigSettings\<close> (lines 136--145); the fields \<^verbatim>\<open>name\<close> and \<^verbatim>\<open>type\<close> are
  \<open>nameSetting\<close> and \<open>typeSetting\<close>, and an absent \<^verbatim>\<open>requireConfig\<close> is
  \<^term>\<open>False\<close>, its default.
\<close>

record LoadConfigSettings =
  configPath :: "string option"
  configFileName :: "string option"
  requireConfig :: bool
  nameSetting :: "string option"
  typeSetting :: "project_type option"

text \<open>Lines 299--314: the API key of the \<^verbatim>\<open>.env\<close> file, when there is a truthy one.\<close>

definition dotEnvPath :: "environment \<Rightarrow> string option \<Rightarrow> string" where
  "dotEnvPath env cp =
     (if nonempty cp then resolve env [the cp, ''.env''] else resolve env [cwd env, ''.env''])"

definition envApiKey :: "environment \<Rightarrow> string option \<Rightarrow> string option" where
  "envApiKey env cp =
     (case dotenv env (dotEnvPath env cp) of
        None \<Rightarrow> None
      | Some vars \<Rightarrow>
          if nonempty (vars ''ENGINE_API_KEY'') then vars ''ENGINE_API_KEY'' else None)"

definition engineConfigOf :: "string option \<Rightarrow> json" where
  "engineConfigOf apiKey =
     (case apiKey of
        None \<Rightarrow> JObj []
      | Some k \<Rightarrow> JObj [(''engine'', JObj [(''apiKey'', JStr k)])])"

text \<open>
  Lines 321--343: the project type and the name. \<^verbatim>\<open>loadedConfig.config.client\<close>
  is read on both paths whenever a document was found, and throws a TypeError
  when \<^verbatim>\<open>config\<close> is \<^verbatim>\<open>undefined\<close> or \<^verbatim>\<open>null\<close>.
\<close>

definition resolveTypeAndName ::
  "project_type option \<Rightarrow> ConfigResult option \<Rightarrow> string option \<Rightarrow>
     error + project_type \<times> string option" where
  "resolveTypeAndName type loadedConfig resolvedName =
     (case type of
        Some t \<Rightarrow>
          (case loadedConfig of
             None \<Rightarrow> Inr (t, resolvedName)
           | Some l \<Rightarrow>
               if nullish (config l) then Inl TypeError
               else if truthy (get_prop (config l) ''client'') then
                 (case get_prop (get_prop (config l) ''client'') ''service'' of
                    JStr s \<Rightarrow> Inr (t, Some s)
                  | _ \<Rightarrow> Inr (t, resolvedName))
               else Inr (t, resolvedName))
      | None \<Rightarrow>
          (case loadedConfig of
             None \<Rightarrow> Inl UnresolvedProjectType
           | Some l \<Rightarrow>
               if nullish (config l) then Inl TypeError
               else if truthy (get_prop (config l) ''client'') then
                 Inr (Client,
                      case get_prop (get_prop (config l) ''client'') ''service'' of
                        JStr s \<Rightarrow> Some s
                      | _ \<Rightarrow> resolvedName)
               else if truthy (get_prop (config l) ''service'') then Inr (Service, resolvedName)
               else Inl UnresolvedProjectType))"

text \<open>Lines 352--369: the document built when none was loaded or a name was resolved.\<close>

definition synthesizeConfig ::
  "project_type \<Rightarrow> ConfigResult option \<Rightarrow> string option \<Rightarrow> json" where
  "synthesizeConfig resolvedType loadedConfig resolvedName =
     (case resolvedType of
        Client \<Rightarrow>
          JObj (AList.update ''client''
                 (JObj (AList.update ''service'' (of_string_option resolvedName)
                          (spread (spread [] DefaultConfigBase)
                             (case loadedConfig of
                                Some l \<Rightarrow> get_prop (config l) ''client''
                              | None \<Rightarrow> JObj []))))
                 (spread [] (case loadedConfig of Some l \<Rightarrow> config l | None \<Rightarrow> JObj [])))
      | Service \<Rightarrow>
          JObj (AList.update ''service''
                 (JObj (AList.update ''name'' (of_string_option resolvedName)
                          (spread (spread [] DefaultConfigBase)
                             (case loadedConfig of
                                Some l \<Rightarrow> get_prop (config l) ''service''
                              | None \<Rightarrow> JObj []))))
                 (spread [] (case loadedConfig of Some l \<Rightarrow> config l | None \<Rightarrow> JObj []))))"

text \<open>Lines 381--386: the defaults are merged underneath the document.\<close>

definition applyDefaults :: "json \<Rightarrow> json \<Rightarrow> json" where
  "applyDefaults engineConfig cfg =
     (let cfg1 = (if truthy (get_prop cfg ''client'')
                  then merge (JObj [(''client'', DefaultClientConfig)]) cfg else cfg);
          cfg2 = (if truthy (get_prop cfg1 ''service'')
                  then merge (JObj [(''service'', DefaultServiceConfig)]) cfg1 else cfg1);
          cfg3 = (if truthy engineConfig then merge engineConfig cfg2 else cfg2)
      in merge (JObj [(''engine'', DefaultEngineConfig)]) cfg3)"

text \<open>\<^verbatim>\<open>loadConfig\<close> (lines 275--389).\<close>

definition loadConfig :: "environment \<Rightarrow> LoadConfigSettings \<Rightarrow> error + ApolloConfig" where
  "loadConfig env settings =
     (let loadedConfig = search env (getSearchPlaces (configFileName settings)) (configPath settings)
      in
        if requireConfig settings \<and> loadedConfig = None then Inl NoConfigFound
        else
          let apiKey = envApiKey env (configPath settings);
              engineConfig = engineConfigOf apiKey;
              nameFromKey = getServiceFromKey apiKey
          in
            case resolveTypeAndName (typeSetting settings) loadedConfig
                   (or_else (nameSetting settings) nameFromKey) of
              Inl e \<Rightarrow> Inl e
            | Inr (resolvedType, resolvedName) \<Rightarrow>
                let loaded =
                      (if loadedConfig = None \<or> nonempty resolvedName
                       then \<lparr>config = synthesizeConfig resolvedType loadedConfig resolvedName,
                             filepath = (if nonempty (configPath settings)
                                         then the (configPath settings) else cwd env),
                             isEmpty = False\<rparr>
                       else the loadedConfig)
                in
                  if isEmpty loaded then Inl (EmptyConfig (filepath loaded))
                  else new_ApolloConfig (applyDefaults engineConfig (config loaded))
                         (Some (URI_file (resolve env [filepath loaded]))))"

section \<open>A concrete environment\<close>

text \<open>
  The environment of the examples below: the search finds the given result,
  the \<^verbatim>\<open>.env\<close> file exists when an API key is given and then defines
  \<^verbatim>\<open>ENGINE_API_KEY\<close>, the working directory is \<^verbatim>\<open>/proj\<close>, and \<^verbatim>\<open>resolve\<close> returns an
  absolute path as it is and joins a directory and a file name. The settings of
  the examples give no path, no file name and do not require a configuration.
\<close>

definition example_environment :: "ConfigResult option \<Rightarrow> string option \<Rightarrow> environment" where
  "example_environment found apiKey =
     \<lparr>search = (\<lambda>places start. found),
      dotenv = (\<lambda>path. case apiKey of
                         None \<Rightarrow> None
                       | Some k \<Rightarrow> Some [''ENGINE_API_KEY'' \<mapsto> k]),
      cwd = ''/proj'',
      resolve = (\<lambda>segments. case segments of
                               [p] \<Rightarrow> p
                             | [d, f] \<Rightarrow> d @ ''/'' @ f
                             | _ \<Rightarrow> [])\<rparr>"

definition example_settings :: "string option \<Rightarrow> project_type option \<Rightarrow> LoadConfigSettings" where
  "example_settings n t =
     \<lparr>configPath = None, configFileName = None, requireConfig = False,
      nameSetting = n, typeSetting = t\<rparr>"

text \<open>
  The \<^verbatim>\<open>URI.parse\<close> of the examples. They apply it to the directory \<^verbatim>\<open>/proj\<close>
  only, a path with no scheme, authority, query, fragment or percent escape, of
  which \<^verbatim>\<open>URI.parse\<close> makes the URI with that path.
\<close>

definition example_URI_parse :: "string \<Rightarrow> error + URI" where
  "example_URI_parse p = Inr \<lparr>fsPath = p\<rparr>"

section \<open>Facts about splitting\<close>

lemma split_on_not_Nil: "split_on sep s \<noteq> []"
  by (induction s) auto

lemma split_on_no_sep:
  "sep \<notin> set s \<Longrightarrow> split_on sep s = [s]"
  by (induction s) auto

lemma split_on_append_sep:
  "sep \<notin> set a \<Longrightarrow> split_on sep (a @ sep # b) = a # split_on sep b"
  by (induction a) auto

lemma split_on_unfold:
  "split_on sep s =
     takeWhile (\<lambda>c. c \<noteq> sep) s #
       (if sep \<in> set s then split_on sep (tl (dropWhile (\<lambda>c. c \<noteq> sep) s)) else [])"
  by (induction s) (auto simp: split_on_not_Nil)

lemma takeWhile_no_sep: "c \<notin> set s \<Longrightarrow> takeWhile (\<lambda>x. x \<noteq> c) s = s"
  by (induction s) auto

lemma parseServiceSpecificer_segments:
  "parseServiceSpecificer s =
     (trim (takeWhile (\<lambda>c. c \<noteq> CHR ''@'') s),
      if CHR ''@'' \<in> set s
      then Some (trim (takeWhile (\<lambda>c. c \<noteq> CHR ''@'')
                   (tl (dropWhile (\<lambda>c. c \<noteq> CHR ''@'') s))))
      else None)"
proof (cases "CHR ''@'' \<in> set s")
  case False
  then show ?thesis
    by (simp add: parseServiceSpecificer_def split_on_no_sep takeWhile_no_sep)
next
  case True
  let ?rest = "tl (dropWhile (\<lambda>c. c \<noteq> CHR ''@'') s)"
  have "split_on CHR ''@'' s = takeWhile (\<lambda>c. c \<noteq> CHR ''@'') s # split_on CHR ''@'' ?rest"
    using True split_on_unfold [of "CHR ''@''" s] by simp
  moreover have "split_on CHR ''@'' ?rest =
      takeWhile (\<lambda>c. c \<noteq> CHR ''@'') ?rest #
      (if CHR ''@'' \<in> set ?rest
       then split_on CHR ''@'' (tl (dropWhile (\<lambda>c. c \<noteq> CHR ''@'') ?rest)) else [])"
    by (rule split_on_unfold)
  ultimately show ?thesis
    using True by (simp add: parseServiceSpecificer_def split: list.splits)
qed

lemma single_occurrence_rest:
  assumes "count_list s c \<le> 1" and "c \<in> set s"
  shows "c \<notin> set (tl (dropWhile (\<lambda>x. x \<noteq> c) s))"
  using assms
proof (induction s)
  case Nil
  then show ?case by simp
next
  case (Cons a s)
  then show ?case by (auto simp: count_list_0_iff split: if_splits)
qed

section \<open>Facts about paths\<close>

lemma includes_str_append:
  "includes_str f sub \<Longrightarrow> includes_str (pre @ f) sub"
  by (induction pre) simp_all

lemma dirname_scan_file:
  assumes "CHR ''/'' \<notin> set f" "d \<noteq> []" "n \<le> length f" "0 < n \<or> \<not> m"
  shows "dirname_scan (d @ ''/'' @ f) (length d + n) m = Some (length d)"
  using assms
proof (induction n arbitrary: m)
  case 0
  then obtain j where j: "length d = Suc j" by (cases d) auto
  from 0 show ?case by (simp add: j nth_append)
next
  case (Suc n)
  have "(d @ ''/'' @ f) ! Suc (length d + n) = f ! n"
    by (simp add: nth_append)
  moreover have "f ! n \<noteq> CHR ''/''" using Suc.prems by (metis Suc_le_lessD nth_mem)
  ultimately show ?case using Suc by simp
qed

text \<open>The directory of a file \<open>f\<close> in a directory \<open>d\<close> is \<open>d\<close>.\<close>

lemma dirname_parent:
  assumes d: "d \<noteq> []" "last d \<noteq> CHR ''/''" and f: "f \<noteq> []" "CHR ''/'' \<notin> set f"
  shows "dirname (d @ ''/'' @ f) = d"
proof -
  have "dirname_scan (d @ ''/'' @ f) (length d + length f) True = Some (length d)"
    using d f by (intro dirname_scan_file) auto
  moreover have "length (d @ ''/'' @ f) - 1 = length d + length f" by simp
  moreover have "\<not> (hd (d @ ''/'' @ f) = CHR ''/'' \<and> length d = 1)"
    using d by (cases d) auto
  ultimately show ?thesis using d by (auto simp: dirname_def simp del: length_append)
qed

section \<open>Facts about objects and the merge\<close>

lemma get_prop_Nil [simp]: "get_prop (JObj []) k = JUndefined"
  by simp

lemma get_prop_Cons [simp]:
  "get_prop (JObj ((k', v) # ps)) k = (if k = k' then v else get_prop (JObj ps) k)"
  by simp

lemma get_prop_update [simp]:
  "get_prop (JObj (AList.update k v os)) k' = (if k' = k then v else get_prop (JObj os) k')"
  by (simp add: update_conv')

lemma get_prop_absent:
  "k \<notin> fst ` set ps \<Longrightarrow> get_prop (JObj ps) k = JUndefined"
  by (simp add: map_of_eq_None_iff [THEN iffD2])

lemma get_prop_present:
  "distinct (map fst ps) \<Longrightarrow> (k, v) \<in> set ps \<Longrightarrow> get_prop (JObj ps) k = v"
  by simp

declare get_prop.simps(1) [simp del]

lemma get_prop_merge_props:
  "distinct (map fst ps) \<Longrightarrow>
   get_prop (JObj (merge_props os ps)) k = mergeValue (get_prop (JObj os) k) (get_prop (JObj ps) k)"
proof (induction ps arbitrary: os)
  case Nil
  then show ?case by simp
next
  case (Cons p ps)
  obtain k' v where p: "p = (k', v)" by (cases p)
  from Cons.prems p have notin: "k' \<notin> fst ` set ps" and dist: "distinct (map fst ps)"
    by auto
  show ?case
    using Cons.IH [OF dist] notin by (simp add: p get_prop_absent)
qed

lemma update_absent:
  "k \<notin> fst ` set os \<Longrightarrow> AList.update k v os = os @ [(k, v)]"
  by (induction os) auto

lemma update_present:
  "k \<in> fst ` set os \<Longrightarrow> distinct (map fst os) \<Longrightarrow>
   AList.update k v os = map (\<lambda>(k', x). (k', if k' = k then v else x)) os"
proof (induction os)
  case Nil
  then show ?case by simp
next
  case (Cons a os)
  obtain k0 x0 where a: "a = (k0, x0)" by (cases a)
  show ?case
  proof (cases "k0 = k")
    case True
    with Cons.prems a have "k \<notin> fst ` set os" by auto
    then have "map (\<lambda>(k', x). (k', if k' = k then v else x)) os = os"
      by (intro map_idI) (auto simp: image_iff)
    with True a show ?thesis by simp
  next
    case False
    with Cons a show ?thesis by auto
  qed
qed

lemma keys_update:
  "fst ` set (AList.update k v os) = insert k (fst ` set os)"
  using dom_update [of k v os] by (simp add: dom_map_of_conv_image_fst)

lemma merge_props_closed:
  "distinct (map fst ps) \<Longrightarrow> distinct (map fst os) \<Longrightarrow>
   merge_props os ps =
     map (\<lambda>(k, x). (k, mergeValue x (get_prop (JObj ps) k))) os @
     map (\<lambda>(k, v). (k, mergeValue JUndefined v)) (filter (\<lambda>(k, v). k \<notin> fst ` set os) ps)"
proof (induction ps arbitrary: os)
  case Nil
  then show ?case by (simp add: case_prod_unfold)
next
  case (Cons p ps)
  obtain k' v where p: "p = (k', v)" by (cases p)
  from Cons.prems p have notin: "k' \<notin> fst ` set ps" and dist: "distinct (map fst ps)"
    by auto
  let ?X = "mergeValue (get_prop (JObj os) k') v"
  let ?os' = "AList.update k' ?X os"
  have dist': "distinct (map fst ?os')"
    using Cons.prems(2) by (simp add: distinct_update)
  have step: "merge_props os (p # ps) =
      map (\<lambda>(k, x). (k, mergeValue x (get_prop (JObj ps) k))) ?os' @
      map (\<lambda>(k, v). (k, mergeValue JUndefined v)) (filter (\<lambda>(k, v). k \<notin> fst ` set ?os') ps)"
    using Cons.IH [OF dist dist'] by (simp add: p)
  show ?case
  proof (cases "k' \<in> fst ` set os")
    case True
    have a: "map (\<lambda>(k, x). (k, mergeValue x (get_prop (JObj ps) k))) ?os' =
             map (\<lambda>(k, x). (k, mergeValue x (get_prop (JObj (p # ps)) k))) os"
      using Cons.prems(2) notin
      by (auto simp: update_present [OF True] p get_prop_absent get_prop_present)
    have b: "filter (\<lambda>(k, v). k \<notin> fst ` set ?os') ps = filter (\<lambda>(k, v). k \<notin> fst ` set os) (p # ps)"
      using True by (simp add: keys_update p insert_absorb)
    show ?thesis unfolding step a b ..
  next
    case False
    have a: "map (\<lambda>(k, x). (k, mergeValue x (get_prop (JObj ps) k))) ?os' =
             map (\<lambda>(k, x). (k, mergeValue x (get_prop (JObj (p # ps)) k))) os @
             [(k', mergeValue JUndefined v)]"
      using False notin
      by (auto simp: update_absent p get_prop_absent image_iff)
    have b: "filter (\<lambda>(k, v). k \<notin> fst ` set ?os') ps = filter (\<lambda>(k, v). k \<notin> fst ` set os) ps"
      using notin by (intro filter_cong) (force simp: keys_update image_iff)+
    show ?thesis unfolding step a b using False by (simp add: p)
  qed
qed

lemma merge_elems_Nil: "merge_elems [] ys = map (mergeValue JUndefined) ys"
  by (induction ys) auto

lemma clone_id:
  "wf_json v \<Longrightarrow> mergeValue JUndefined v = v"
proof (induction v)
  case (JArr xs)
  then show ?case by (simp add: merge_elems_Nil map_idI)
next
  case (JObj ps)
  then have "map (\<lambda>(k, v). (k, mergeValue JUndefined v)) ps = ps"
    by (intro map_idI) (auto simp: snds.simps)
  with JObj.prems show ?case by (simp add: merge_props_closed)
qed simp_all

lemma merge_props_wf:
  assumes "distinct (map fst ps)" "distinct (map fst os)" "\<forall>p \<in> set ps. wf_json (snd p)"
  shows "merge_props os ps =
     map (\<lambda>(k, x). (k, mergeValue x (get_prop (JObj ps) k))) os @
     filter (\<lambda>(k, v). k \<notin> fst ` set os) ps"
proof -
  have "map (\<lambda>(k, v). (k, mergeValue JUndefined v)) (filter (\<lambda>(k, v). k \<notin> fst ` set os) ps)
        = filter (\<lambda>(k, v). k \<notin> fst ` set os) ps"
    using assms(3) by (intro map_idI) (auto simp: clone_id)
  with merge_props_closed [OF assms(1,2)] show ?thesis by simp
qed


lemma merge_elems_wf:
  "\<lbrakk>\<And>y x. y \<in> set ys \<Longrightarrow> wf_json x \<Longrightarrow> wf_json (mergeValue x y);
    \<forall>x \<in> set xs. wf_json x\<rbrakk>
   \<Longrightarrow> \<forall>z \<in> set (merge_elems xs ys). wf_json z"
proof (induction ys arbitrary: xs)
  case Nil
  then show ?case by simp
next
  case (Cons y ys)
  have tl: "\<forall>x \<in> set (tl xs). wf_json x"
    using Cons.prems(2) by (cases xs) auto
  have hd: "wf_json (case xs of [] \<Rightarrow> JUndefined | x # _ \<Rightarrow> x)"
    using Cons.prems(2) by (cases xs) auto
  have "\<forall>z \<in> set (merge_elems (tl xs) ys). wf_json z"
    using Cons.IH [OF _ tl] Cons.prems(1) by simp
  with hd Cons.prems(1) show ?case by simp
qed

lemma get_prop_wf:
  "wf_json (JObj ps) \<Longrightarrow> wf_json (get_prop (JObj ps) k)"
proof (cases "k \<in> fst ` set ps")
  case True
  assume wf: "wf_json (JObj ps)"
  from True obtain v where "(k, v) \<in> set ps" by auto
  with wf show ?thesis by (auto simp: get_prop_present)
next
  case False
  then show ?thesis by (simp add: get_prop_absent)
qed

lemma get_prop_cases:
  "get_prop (JObj ps) k = JUndefined \<or> get_prop (JObj ps) k \<in> snd ` set ps"
  by (force simp: get_prop.simps(1) image_iff split: option.splits dest: map_of_SomeD)

lemma mergeValue_wf:
  "wf_json s \<Longrightarrow> wf_json d \<Longrightarrow> wf_json (mergeValue d s)"
proof (induction s arbitrary: d)
  case (JArr ys)
  let ?xs = "case d of JArr xs \<Rightarrow> xs | _ \<Rightarrow> []"
  have "\<forall>x \<in> set ?xs. wf_json x"
    using JArr.prems(2) by (cases d) auto
  then have "\<forall>z \<in> set (merge_elems ?xs ys). wf_json z"
    using JArr.IH JArr.prems(1) by (intro merge_elems_wf) auto
  then show ?case by simp
next
  case (JObj ps)
  have vals: "wf_json (mergeValue x (get_prop (JObj ps) k))" if "wf_json x" for x k
  proof -
    from get_prop_cases [of ps k] show ?thesis
    proof
      assume "get_prop (JObj ps) k = JUndefined"
      with that show ?thesis by simp
    next
      assume "get_prop (JObj ps) k \<in> snd ` set ps"
      then obtain p where p: "p \<in> set ps" "get_prop (JObj ps) k = snd p" by auto
      with JObj.prems(1) have "wf_json (snd p)" by auto
      with JObj.IH [of p "snd p" x] p that show ?thesis
        by (cases p) (auto simp: snds.simps)
    qed
  qed
  have main: "wf_json (JObj (merge_props os ps))"
    if os: "distinct (map fst os)" "\<forall>p \<in> set os. wf_json (snd p)" for os
  proof -
    have eq: "merge_props os ps =
       map (\<lambda>(k, x). (k, mergeValue x (get_prop (JObj ps) k))) os @
       filter (\<lambda>(k, v). k \<notin> fst ` set os) ps"
      using JObj.prems(1) os by (intro merge_props_wf) auto
    have keys: "map fst (map (\<lambda>(k, x). (k, mergeValue x (get_prop (JObj ps) k))) os) = map fst os"
      by (induction os) auto
    have d1: "distinct (map fst (filter (\<lambda>(k, v). k \<notin> fst ` set os) ps))"
      using JObj.prems(1) by (simp add: distinct_map_filter)
    have disj: "set (map fst os) \<inter> set (map fst (filter (\<lambda>(k, v). k \<notin> fst ` set os) ps)) = {}"
      by (force simp: image_iff)
    have "distinct (map fst (merge_props os ps))"
      unfolding eq map_append distinct_append keys using os(1) d1 disj by blast
    moreover have "\<forall>p \<in> set (merge_props os ps). wf_json (snd p)"
      unfolding eq using os(2) JObj.prems(1) vals by auto
    ultimately show ?thesis by simp
  qed
  show ?case
  proof (cases d)
    case (JObj os)
    with JObj.prems(2) main [of os] show ?thesis by simp
  next
    case (JArr xs)
    with JObj.prems(2) show ?thesis by simp
  qed (use main [of "[]"] in simp_all)
qed simp_all

lemma merge_elems_self:
  "(\<And>x. x \<in> set xs \<Longrightarrow> mergeValue x x = x) \<Longrightarrow> merge_elems xs xs = xs"
proof -
  have "(\<And>x. x \<in> set ys \<Longrightarrow> mergeValue x x = x) \<Longrightarrow> merge_elems (ys @ zs) ys = ys @ zs" for ys zs
    by (induction ys) auto
  from this [of xs "[]"] show "(\<And>x. x \<in> set xs \<Longrightarrow> mergeValue x x = x) \<Longrightarrow> merge_elems xs xs = xs"
    by simp
qed

lemma mergeValue_self:
  "wf_json d \<Longrightarrow> mergeValue d d = d"
proof (induction d)
  case (JArr xs)
  then show ?case by (simp add: merge_elems_self)
next
  case (JObj ps)
  have "map (\<lambda>(k, x). (k, mergeValue x (get_prop (JObj ps) k))) ps = ps"
    using JObj by (intro map_idI) (auto simp: get_prop_present snds.simps)
  moreover have "filter (\<lambda>(k, v). k \<notin> fst ` set ps) ps = []"
    by (auto simp: filter_empty_conv image_iff)
  ultimately show ?case
    using JObj.prems merge_props_wf [of ps ps] by simp
qed simp_all

lemma merge_elems_idem:
  "\<lbrakk>\<And>y x. y \<in> set ys \<Longrightarrow> wf_json x \<Longrightarrow> mergeValue x (mergeValue x y) = mergeValue x y;
    \<forall>x \<in> set xs. wf_json x\<rbrakk>
   \<Longrightarrow> merge_elems xs (merge_elems xs ys) = merge_elems xs ys"
proof (induction ys arbitrary: xs)
  case Nil
  then show ?case by (simp add: merge_elems_self mergeValue_self)
next
  case (Cons y ys)
  have tl: "\<forall>x \<in> set (tl xs). wf_json x"
    using Cons.prems(2) by (cases xs) auto
  have hd: "wf_json (case xs of [] \<Rightarrow> JUndefined | x # _ \<Rightarrow> x)"
    using Cons.prems(2) by (cases xs) auto
  have "merge_elems (tl xs) (merge_elems (tl xs) ys) = merge_elems (tl xs) ys"
    using Cons.IH [OF _ tl] Cons.prems(1) by simp
  with hd Cons.prems(1) show ?case by simp
qed

lemma mergeValue_idem:
  "wf_json s \<Longrightarrow> wf_json d \<Longrightarrow> mergeValue d (mergeValue d s) = mergeValue d s"
proof (induction s arbitrary: d)
  case JUndefined
  then show ?case by (simp add: mergeValue_self)
next
  case (JArr ys)
  let ?xs = "case d of JArr xs \<Rightarrow> xs | _ \<Rightarrow> []"
  have "\<forall>x \<in> set ?xs. wf_json x"
    using JArr.prems(2) by (cases d) auto
  then have "merge_elems ?xs (merge_elems ?xs ys) = merge_elems ?xs ys"
    using JArr.IH JArr.prems(1) by (intro merge_elems_idem) auto
  then show ?case by (cases d) (simp_all add: merge_elems_Nil)
next
  case (JObj ps)
  have vals: "mergeValue x (mergeValue x (get_prop (JObj ps) k)) = mergeValue x (get_prop (JObj ps) k)"
    if "wf_json x" for x k
  proof -
    from get_prop_cases [of ps k] show ?thesis
    proof
      assume "get_prop (JObj ps) k = JUndefined"
      with that show ?thesis by (simp add: mergeValue_self)
    next
      assume "get_prop (JObj ps) k \<in> snd ` set ps"
      then obtain p where p: "p \<in> set ps" "get_prop (JObj ps) k = snd p" by auto
      with JObj.prems(1) have "wf_json (snd p)" by auto
      with JObj.IH [of p "snd p" x] p that show ?thesis
        by (cases p) (auto simp: snds.simps)
    qed
  qed
  show ?case
  proof (cases d)
    case d: (JObj os)
    let ?R = "merge_props os ps"
    have os: "distinct (map fst os)" "\<forall>p \<in> set os. wf_json (snd p)"
      using JObj.prems(2) d by auto
    have eq: "?R = map (\<lambda>(k, x). (k, mergeValue x (get_prop (JObj ps) k))) os @
       filter (\<lambda>(k, v). k \<notin> fst ` set os) ps"
      using JObj.prems(1) os by (intro merge_props_wf) auto
    have "wf_json (JObj ?R)"
      using mergeValue_wf [OF JObj.prems(1) JObj.prems(2)] d by simp
    then have eq2: "merge_props os ?R = map (\<lambda>(k, x). (k, mergeValue x (get_prop (JObj ?R) k))) os @
       filter (\<lambda>(k, v). k \<notin> fst ` set os) ?R"
      using os by (intro merge_props_wf) auto
    have a: "map (\<lambda>(k, x). (k, mergeValue x (get_prop (JObj ?R) k))) os =
             map (\<lambda>(k, x). (k, mergeValue x (get_prop (JObj ps) k))) os"
      using JObj.prems(1) os vals by (auto simp: get_prop_merge_props get_prop_present)
    have b: "filter (\<lambda>(k, v). k \<notin> fst ` set os) ?R = filter (\<lambda>(k, v). k \<notin> fst ` set os) ps"
      unfolding eq by (auto simp: filter_empty_conv image_iff)
    show ?thesis
      using eq2 a b eq d by simp
  next
    case (JArr xs)
    with JObj.prems(2) mergeValue_self [of "JArr xs"] show ?thesis by simp
  qed (use JObj.prems(1) clone_id [of "JObj ps"] in simp_all)
qed simp_all

lemma merge_objects:
  "wf_json (JObj os) \<Longrightarrow> merge (JObj os) (JObj ps) = mergeValue (JObj os) (JObj ps)"
  using clone_id [of "JObj os"] by (simp add: merge_def merge_into_def)

lemma truthy_mergeValue:
  "truthy s \<Longrightarrow> truthy (mergeValue d s)"
  by (cases s; cases d) simp_all

lemma get_path_undefined [simp]: "get_path JUndefined p = JUndefined"
  by (induction p) simp_all

lemma get_path_not_object:
  "is_scalar (get_path s (k # ks)) \<Longrightarrow> \<exists>ps. s = JObj ps"
  by (cases s) simp_all

lemma mergeable_undefined [simp]: "mergeable JUndefined s"
  by (cases s) simp_all

lemma mergeable_props_get:
  "distinct (map fst ps) \<Longrightarrow> mergeable_props os ps \<Longrightarrow>
   mergeable (get_prop (JObj os) k) (get_prop (JObj ps) k)"
proof (induction ps)
  case Nil
  then show ?case by simp
next
  case (Cons p ps)
  obtain k' v where p: "p = (k', v)" by (cases p)
  with Cons show ?case by (auto simp: get_prop_absent)
qed

lemma mergeValue_keeps_scalars:
  "wf_json s \<Longrightarrow> mergeable d s \<Longrightarrow> is_scalar (get_path s p) \<Longrightarrow>
   get_path (mergeValue d s) p = get_path s p"
proof (induction p arbitrary: d s)
  case Nil
  then show ?case by (cases s) simp_all
next
  case (Cons k ks)
  from get_path_not_object [OF Cons.prems(3)] obtain ps where s: "s = JObj ps" ..
  have dist: "distinct (map fst ps)" and wf: "wf_json (get_prop (JObj ps) k)"
    using Cons.prems(1) get_prop_wf [of ps k] by (simp_all add: s)
  have step: "get_path (mergeValue x (get_prop (JObj ps) k)) ks = get_path (get_prop (JObj ps) k) ks"
    if "mergeable x (get_prop (JObj ps) k)" for x
    using Cons.IH [OF wf that] Cons.prems(3) by (simp add: s)
  show ?case
  proof (cases d)
    case (JObj os)
    with Cons.prems(2) s have "mergeable_props os ps" by simp
    from mergeable_props_get [OF dist this] step show ?thesis
      by (simp add: s JObj get_prop_merge_props dist)
  next
    case (JArr xs)
    with Cons.prems(2) s show ?thesis by simp
  qed (use step [of JUndefined] in \<open>simp_all add: s get_prop_merge_props dist\<close>)
qed

section \<open>Facts about the defaults\<close>

lemma wf_defaults [simp]:
  "wf_json DefaultEngineStatsWindow" "wf_json DefaultEngineConfig" "wf_json DefaultConfigBase"
  "wf_json DefaultClientConfig" "wf_json DefaultServiceConfig"
  by (simp_all add: DefaultEngineStatsWindow_def DefaultEngineConfig_def DefaultConfigBase_def
      DefaultClientConfig_def DefaultServiceConfig_def spread_def)

lemma wf_engineConfigOf [simp]: "wf_json (engineConfigOf key)"
  by (simp add: engineConfigOf_def split: option.splits)

lemma props_ext:
  "distinct (map fst xs) \<Longrightarrow> map fst xs = map fst ys \<Longrightarrow>
   (\<And>k. k \<in> set (map fst xs) \<Longrightarrow> get_prop (JObj xs) k = get_prop (JObj ys) k) \<Longrightarrow> xs = ys"
proof (induction xs arbitrary: ys)
  case Nil
  then show ?case by simp
next
  case (Cons x xs)
  from Cons.prems(2) obtain y ys' where ys: "ys = y # ys'" by (cases ys) auto
  obtain k v where x: "x = (k, v)" by (cases x)
  obtain k' v' where y: "y = (k', v')" by (cases y)
  from Cons.prems(2) have k: "k' = k" and keys: "map fst xs = map fst ys'"
    by (simp_all add: ys x y)
  from Cons.prems(3) [of k] have v: "v' = v" by (simp add: x y ys k)
  have "xs = ys'"
  proof (rule Cons.IH [OF _ keys])
    show "distinct (map fst xs)" using Cons.prems(1) by simp
  next
    fix j assume j: "j \<in> set (map fst xs)"
    with Cons.prems(1) have "j \<noteq> k" by (auto simp: x)
    with Cons.prems(3) [of j] j show "get_prop (JObj xs) j = get_prop (JObj ys') j"
      by (simp add: x y ys k)
  qed
  then show ?case by (simp add: x y ys k v)
qed

lemma key_in_keys: "(k, v) \<in> set ps \<Longrightarrow> k \<in> fst ` set ps"
  by force

lemma keys_merge_props:
  assumes "distinct (map fst ps)" "distinct (map fst os)"
  shows "map fst (merge_props os ps) = map fst os @ filter (\<lambda>k. k \<notin> set (map fst os)) (map fst ps)"
proof -
  have a: "map fst (map (\<lambda>(k, x). (k, mergeValue x (get_prop (JObj ps) k))) os) = map fst os"
    by (induction os) auto
  have b: "map fst (map (\<lambda>(k, v). (k, mergeValue JUndefined v)) qs) = map fst qs" for qs
    by (induction qs) auto
  have c: "map fst (filter (\<lambda>(k, v). k \<notin> fst ` set os) ps) = filter (\<lambda>k. k \<notin> set (map fst os)) (map fst ps)"
    by (induction ps) (auto simp: key_in_keys)
  show ?thesis
    unfolding merge_props_closed [OF assms] map_append a b c ..
qed

lemma distinct_merge_props:
  assumes "distinct (map fst ps)" "distinct (map fst os)"
  shows "distinct (map fst (merge_props os ps))"
  unfolding keys_merge_props [OF assms] using assms by auto

lemma merge_objects_props:
  "wf_json (JObj os) \<Longrightarrow> merge (JObj os) (JObj ps) = JObj (merge_props os ps)"
  by (simp add: merge_objects)

lemma clone_props:
  "wf_json (JObj ps) \<Longrightarrow> merge_props [] ps = ps"
  using clone_id [of "JObj ps"] by simp

lemma merge_into_object [simp]: "merge_into os (JObj ps) = merge_props os ps"
  by (simp add: merge_into_def)

lemma engine_layers:
  assumes wf: "wf_json x"
  shows "mergeValue DefaultEngineConfig (mergeValue (JObj [(''apiKey'', JStr key)])
           (mergeValue DefaultEngineConfig (mergeValue (JObj [(''apiKey'', JStr key)]) x)))
         = mergeValue DefaultEngineConfig (mergeValue (JObj [(''apiKey'', JStr key)]) x)"
proof (cases x)
  case (JObj xs)
  have d: "distinct (map fst xs)" using wf JObj by simp
  have w: "wf_json (get_prop (JObj xs) k)" for k using wf JObj get_prop_wf by blast
  show ?thesis
    unfolding JObj DefaultEngineConfig_def
    apply (simp add: )
    apply (rule props_ext)
      apply (simp add: distinct_merge_props d)
     apply (simp add: keys_merge_props distinct_merge_props d)
     apply (auto intro!: filter_cong)[1]
    apply (simp add: get_prop_merge_props distinct_merge_props d clone_id w mergeValue_idem mergeValue_wf)
    done
next
  case (JArr ys)
  with wf have "map (mergeValue JUndefined) ys = ys"
    by (intro map_idI) (auto simp: clone_id)
  then show ?thesis
    by (simp add: JArr DefaultEngineConfig_def merge_elems_Nil)
qed (simp_all add: DefaultEngineConfig_def)

lemma applyDefaults_idem:
  assumes wf: "wf_json (JObj cs)"
  shows "applyDefaults (engineConfigOf key) (applyDefaults (engineConfigOf key) (JObj cs))
         = applyDefaults (engineConfigOf key) (JObj cs)"
proof -
  have d: "distinct (map fst cs)" using wf by simp
  have w: "wf_json (get_prop (JObj cs) k)" for k using wf get_prop_wf by blast
  have c: "merge_props [] cs = cs" using wf by (rule clone_props)
  note simps = merge_objects_props engineConfigOf_def get_prop_merge_props distinct_merge_props
    d w c clone_id truthy_mergeValue mergeValue_wf keys_merge_props mergeValue_idem engine_layers
  show ?thesis
    unfolding applyDefaults_def Let_def
    apply (cases "truthy (get_prop (JObj cs) ''client'')"; cases "truthy (get_prop (JObj cs) ''service'')"; cases key)
           apply (simp_all add: simps)
           apply (rule props_ext, simp add: simps, simp add: simps, (auto intro!: filter_cong)[1], simp add: simps)+
    done
qed

lemma mergeable_single:
  "distinct (map fst cs) \<Longrightarrow>
   mergeable_props [(k0, a)] cs = mergeable a (get_prop (JObj cs) k0)"
proof (induction cs)
  case Nil
  then show ?case by simp
next
  case (Cons p cs)
  obtain k v where p: "p = (k, v)" by (cases p)
  with Cons show ?case by (auto simp: get_prop_absent)
qed

lemma mergeable_scalar_dest:
  "is_scalar d \<or> d = JUndefined \<Longrightarrow> mergeable d s"
  by (cases s; cases d) simp_all

lemma mergeable_props_flat:
  "\<forall>p \<in> set os. is_scalar (snd p) \<Longrightarrow> mergeable_props os ps"
proof (induction ps)
  case Nil
  then show ?case by simp
next
  case (Cons p ps)
  obtain k v where p: "p = (k, v)" by (cases p)
  from get_prop_cases [of os k] Cons.prems have "is_scalar (get_prop (JObj os) k) \<or> get_prop (JObj os) k = JUndefined"
    by auto
  with Cons p show ?case by (simp add: mergeable_scalar_dest)
qed

lemma mergeable_flat:
  "\<forall>p \<in> set os. is_scalar (snd p) \<Longrightarrow> \<not> array_like os \<Longrightarrow> mergeable (JObj os) s"
  by (cases s) (simp_all add: mergeable_props_flat)

lemma merge_keeps_scalars:
  assumes "wf_json (JObj os)" "wf_json (JObj cs)" "mergeable (JObj os) (JObj cs)"
    and "is_scalar (get_path (JObj cs) p)"
  shows "get_path (merge (JObj os) (JObj cs)) p = get_path (JObj cs) p"
  using assms by (simp only: merge_objects mergeValue_keeps_scalars)

lemma wf_merge:
  "wf_json (JObj os) \<Longrightarrow> wf_json (JObj cs) \<Longrightarrow> wf_json (merge (JObj os) (JObj cs))"
  by (simp only: merge_objects mergeValue_wf)

lemma merge_stage:
  assumes os: "wf_json (JObj os)" and cs: "wf_json (JObj cs)"
    and m: "mergeable (JObj os) (JObj cs)"
    and sc: "is_scalar (get_path (JObj cs) p)"
  obtains cs' where "merge (JObj os) (JObj cs) = JObj cs'" "wf_json (JObj cs')"
    "get_path (JObj cs') p = get_path (JObj cs) p"
    "\<And>k. k \<notin> fst ` set os \<Longrightarrow> get_prop (JObj cs') k = get_prop (JObj cs) k"
proof
  show "merge (JObj os) (JObj cs) = JObj (merge_props os cs)"
    using os by (rule merge_objects_props)
  show "wf_json (JObj (merge_props os cs))"
    using wf_merge [OF os cs] os by (simp add: merge_objects_props)
  show "get_path (JObj (merge_props os cs)) p = get_path (JObj cs) p"
    using merge_keeps_scalars [OF os cs m sc] os by (simp add: merge_objects_props)
  fix k assume "k \<notin> fst ` set os"
  moreover have "wf_json (get_prop (JObj cs) k)" using cs by (rule get_prop_wf)
  ultimately show "get_prop (JObj (merge_props os cs)) k = get_prop (JObj cs) k"
    using cs by (simp add: get_prop_merge_props get_prop_absent clone_id)
qed

lemma flat_engine_defaults:
  "mergeable (JObj [(''apiKey'', JStr k)]) s" "mergeable DefaultEngineConfig s"
  by (simp_all add: mergeable_flat array_like_def DefaultEngineConfig_def)

lemma applyDefaults_keeps_scalars:
  assumes wf: "wf_json (JObj cs)"
    and mc: "mergeable DefaultClientConfig (get_prop (JObj cs) ''client'')"
    and ms: "mergeable DefaultServiceConfig (get_prop (JObj cs) ''service'')"
    and sc: "is_scalar (get_path (JObj cs) p)"
  shows "get_path (applyDefaults (engineConfigOf key) (JObj cs)) p = get_path (JObj cs) p"
proof -
  define c1 where "c1 = (if truthy (get_prop (JObj cs) ''client'')
                  then merge (JObj [(''client'', DefaultClientConfig)]) (JObj cs) else JObj cs)"
  define c2 where "c2 = (if truthy (get_prop c1 ''service'')
                  then merge (JObj [(''service'', DefaultServiceConfig)]) c1 else c1)"
  define c3 where "c3 = merge (engineConfigOf key) c2"
  have r: "applyDefaults (engineConfigOf key) (JObj cs) = merge (JObj [(''engine'', DefaultEngineConfig)]) c3"
    by (simp add: applyDefaults_def c1_def c2_def c3_def Let_def engineConfigOf_def split: option.splits)
  obtain p1 where p1: "c1 = JObj p1" "wf_json (JObj p1)" "get_path (JObj p1) p = get_path (JObj cs) p"
    "get_prop (JObj p1) ''service'' = get_prop (JObj cs) ''service''"
  proof (cases "truthy (get_prop (JObj cs) ''client'')")
    case True
    have "mergeable (JObj [(''client'', DefaultClientConfig)]) (JObj cs)"
      using mc wf by (simp add: mergeable_single)
    from merge_stage [OF _ wf this sc] True that show ?thesis
      by (auto simp: c1_def)
  next
    case False
    with wf show ?thesis by (intro that [of cs]) (simp_all add: c1_def)
  qed
  have sc1: "is_scalar (get_path (JObj p1) p)" using sc p1(3) by simp
  obtain p2 where p2: "c2 = JObj p2" "wf_json (JObj p2)" "get_path (JObj p2) p = get_path (JObj cs) p"
  proof (cases "truthy (get_prop c1 ''service'')")
    case True
    have "mergeable (JObj [(''service'', DefaultServiceConfig)]) (JObj p1)"
      using ms p1(2,4) by (simp add: mergeable_single)
    from merge_stage [OF _ p1(2) this sc1] True that p1 show ?thesis
      by (auto simp: c2_def)
  next
    case False
    with p1 show ?thesis by (intro that [of p1]) (simp_all add: c2_def)
  qed
  have sc2: "is_scalar (get_path (JObj p2) p)" using sc p2(3) by simp
  obtain p3 where p3: "c3 = JObj p3" "wf_json (JObj p3)" "get_path (JObj p3) p = get_path (JObj cs) p"
  proof -
    obtain es where es: "engineConfigOf key = JObj es" "wf_json (JObj es)"
      using wf_engineConfigOf [of key] by (cases key) (simp_all add: engineConfigOf_def)
    have "mergeable (JObj es) (JObj p2)"
      using es(1) p2(2)
      by (cases key) (auto simp: engineConfigOf_def mergeable_single flat_engine_defaults mergeable_props_flat)
    from merge_stage [OF es(2) p2(2) this sc2] that p2 es show ?thesis
      by (auto simp: c3_def)
  qed
  have sc3: "is_scalar (get_path (JObj p3) p)" using sc p3(3) by simp
  have "mergeable (JObj [(''engine'', DefaultEngineConfig)]) (JObj p3)"
    using p3(2) by (simp add: mergeable_single flat_engine_defaults)
  from merge_keeps_scalars [OF _ p3(2) this sc3]
  have "get_path (merge (JObj [(''engine'', DefaultEngineConfig)]) (JObj p3)) p = get_path (JObj p3) p"
    by simp
  then show ?thesis by (simp add: r p3)
qed

lemma truthy_clone [simp]: "truthy (mergeValue JUndefined v) = truthy v"
  by (cases v) simp_all

lemma applyDefaults_reads:
  assumes d: "distinct (map fst cs)" and w: "wf_json (get_prop (JObj cs) k)"
  shows "get_prop (applyDefaults (engineConfigOf key) (JObj cs)) k =
     (if k = ''client'' then
        (if truthy (get_prop (JObj cs) ''client'')
         then mergeValue DefaultClientConfig (get_prop (JObj cs) ''client'')
         else get_prop (JObj cs) ''client'')
      else if k = ''service'' then
        (if truthy (get_prop (JObj cs) ''service'')
         then mergeValue DefaultServiceConfig (get_prop (JObj cs) ''service'')
         else get_prop (JObj cs) ''service'')
      else if k = ''engine'' then
        mergeValue DefaultEngineConfig
          (mergeValue (get_prop (engineConfigOf key) ''engine'') (get_prop (JObj cs) ''engine''))
      else get_prop (JObj cs) k)"
proof -
  note simps = merge_objects_props engineConfigOf_def get_prop_merge_props distinct_merge_props
    d clone_id truthy_mergeValue mergeValue_wf
  consider "k = ''client''" | "k = ''service''" | "k = ''engine''"
    | "k \<noteq> ''client''" "k \<noteq> ''service''" "k \<noteq> ''engine''"
    by blast
  then show ?thesis
  proof cases
    case 1
    with w have "wf_json (get_prop (JObj cs) ''client'')" by simp
    then show ?thesis
      unfolding applyDefaults_def Let_def 1
      by (cases "truthy (get_prop (JObj cs) ''client'')";
          cases "truthy (get_prop (JObj cs) ''service'')"; cases key)
         (simp_all add: simps)
  next
    case 2
    with w have "wf_json (get_prop (JObj cs) ''service'')" by simp
    then show ?thesis
      unfolding applyDefaults_def Let_def 2
      by (cases "truthy (get_prop (JObj cs) ''client'')";
          cases "truthy (get_prop (JObj cs) ''service'')"; cases key)
         (simp_all add: simps)
  next
    case 3
    with w have "wf_json (get_prop (JObj cs) ''engine'')" by simp
    then show ?thesis
      unfolding applyDefaults_def Let_def 3
      by (cases "truthy (get_prop (JObj cs) ''client'')";
          cases "truthy (get_prop (JObj cs) ''service'')"; cases key)
         (simp_all add: simps)
  next
    case 4
    with w show ?thesis
      unfolding applyDefaults_def Let_def
      by (cases "truthy (get_prop (JObj cs) ''client'')";
          cases "truthy (get_prop (JObj cs) ''service'')"; cases key)
         (simp_all add: simps)
  qed
qed

lemma merge_elems_scalars:
  "\<forall>y \<in> set ys. is_scalar y \<Longrightarrow> merge_elems xs ys = ys @ drop (length ys) xs"
proof (induction ys arbitrary: xs)
  case Nil
  then show ?case by simp
next
  case (Cons y ys)
  then have "mergeValue x y = y" for x by (cases y) simp_all
  with Cons show ?case by (cases xs) (simp_all add: drop_Cons')
qed

lemma get_path_array_truthy: "get_path x ks = JArr ys \<Longrightarrow> truthy x"
  by (cases ks; cases x) simp_all

lemma mergeValue_arrays:
  "wf_json s \<Longrightarrow> get_path s p = JArr ys \<Longrightarrow> get_path d p = JArr xs \<Longrightarrow>
   \<forall>y \<in> set ys. is_scalar y \<Longrightarrow>
   get_path (mergeValue d s) p = JArr (ys @ drop (length ys) xs)"
proof (induction p arbitrary: d s)
  case Nil
  then show ?case by (simp add: merge_elems_scalars)
next
  case (Cons k ks)
  from Cons.prems(2) obtain ps where s: "s = JObj ps" by (cases s) simp_all
  from Cons.prems(3) obtain os where d: "d = JObj os" by (cases d) simp_all
  have "wf_json (get_prop (JObj ps) k)" using Cons.prems(1) s get_prop_wf by blast
  from Cons.IH [OF this, of "get_prop (JObj os) k"] Cons.prems show ?case
    by (simp add: s d get_prop_merge_props)
qed

lemma applyDefaults_arrays:
  assumes wf: "wf_json (JObj cs)"
    and dflt: "get_path (JObj [(''client'', DefaultClientConfig), (''service'', DefaultServiceConfig)]) p = JArr xs"
    and doc: "get_path (JObj cs) p = JArr ys"
    and sc: "\<forall>y \<in> set ys. is_scalar y"
  shows "get_path (applyDefaults (engineConfigOf key) (JObj cs)) p = JArr (ys @ drop (length ys) xs)"
proof -
  from dflt obtain k ks where p: "p = k # ks" by (cases p) simp_all
  have w: "wf_json (get_prop (JObj cs) k)" using wf get_prop_wf by blast
  from doc have t: "truthy (get_prop (JObj cs) k)"
    by (simp add: p get_path_array_truthy)
  from dflt consider "k = ''client''" "get_path DefaultClientConfig ks = JArr xs"
    | "k = ''service''" "get_path DefaultServiceConfig ks = JArr xs"
    by (auto simp: p split: if_splits)
  then show ?thesis
  proof cases
    case 1
    with mergeValue_arrays [OF w _ 1(2) sc] doc t w wf show ?thesis
      by (simp add: p applyDefaults_reads)
  next
    case 2
    with mergeValue_arrays [OF w _ 2(2) sc] doc t w wf show ?thesis
      by (simp add: p applyDefaults_reads)
  qed
qed

section \<open>Facts about loading\<close>

lemma wf_update:
  "wf_json (JObj acc) \<Longrightarrow> wf_json v \<Longrightarrow> wf_json (JObj (AList.update k v acc))"
  by (induction acc) (auto simp: distinct_update keys_update)

lemma fold_update_fresh:
  "distinct (map fst ps) \<Longrightarrow> fst ` set ps \<inter> fst ` set acc = {} \<Longrightarrow>
   fold (\<lambda>(k, v). AList.update k v) ps acc = acc @ ps"
proof (induction ps arbitrary: acc)
  case Nil
  then show ?case by simp
next
  case (Cons p ps)
  obtain k v where p: "p = (k, v)" by (cases p)
  from Cons.prems p have k: "k \<notin> fst ` set acc" by auto
  have "fold (\<lambda>(k, v). AList.update k v) ps (acc @ [(k, v)]) = (acc @ [(k, v)]) @ ps"
    using Cons.prems p by (intro Cons.IH) auto
  with k show ?case by (simp add: p update_absent)
qed

lemma spread_empty_object:
  "distinct (map fst ps) \<Longrightarrow> spread [] (JObj ps) = ps"
  using fold_update_fresh [of ps "[]"] by (simp add: spread_def)

lemma wf_fold_update:
  "wf_json (JObj acc) \<Longrightarrow> \<forall>p \<in> set ps. wf_json (snd p) \<Longrightarrow>
   wf_json (JObj (fold (\<lambda>(k, v). AList.update k v) ps acc))"
proof (induction ps arbitrary: acc)
  case Nil
  then show ?case by simp
next
  case (Cons p ps)
  obtain k v where p: "p = (k, v)" by (cases p)
  have "wf_json (JObj (AList.update k v acc))"
    using Cons.prems p by (intro wf_update) auto
  from Cons.IH [OF this] Cons.prems show ?case by (simp add: p)
qed

lemma wf_spread_object:
  assumes a: "wf_json (JObj acc)" and b: "wf_json (JObj ps)"
  shows "wf_json (JObj (spread acc (JObj ps)))"
proof -
  from b have "\<forall>p \<in> set ps. wf_json (snd p)" by simp
  from wf_fold_update [OF a this] show ?thesis by (simp add: spread_def)
qed

lemma wf_spread_base: "wf_json (JObj (spread [] DefaultConfigBase))"
  by (simp add: DefaultConfigBase_def spread_def)

lemma wf_own_props:
  "wf_json x \<Longrightarrow> \<forall>p \<in> set (own_props x). wf_json (snd p)"
proof (cases x)
  case (JStr s)
  have "wf_json (snd p)" if "p \<in> set (own_props (JStr s))" for p
  proof -
    obtain a b where p: "p = (a, b)" by (cases p)
    from that have "b \<in> set (map (\<lambda>c. JStr [c]) s)"
      unfolding p own_props.simps by (rule set_zip_rightD)
    then show ?thesis by (auto simp: p)
  qed
  then show ?thesis by (simp only: JStr) blast
qed (auto dest: set_zip_rightD)

lemma wf_spread:
  assumes a: "wf_json (JObj acc)" and b: "wf_json x"
  shows "wf_json (JObj (spread acc x))"
  using wf_fold_update [OF a wf_own_props [OF b]] by (simp add: spread_def)

lemma not_nullish_merge [simp]: "\<not> nullish (merge a b)"
  by (simp add: merge_def)

lemma not_nullish_applyDefaults [simp]: "\<not> nullish (applyDefaults e c)"
  by (simp add: applyDefaults_def Let_def)

lemma string_service_is_object:
  "get_prop c ''service'' = JStr sp \<Longrightarrow> \<exists>block. c = JObj block"
  by (cases c) simp_all

lemma client_defaults_no_service:
  assumes "distinct (map fst ps)" "wf_json (get_prop (JObj ps) ''service'')"
  shows "get_prop (mergeValue DefaultClientConfig (JObj ps)) ''service'' = get_prop (JObj ps) ''service''"
  using assms
  by (simp add: DefaultClientConfig_def DefaultConfigBase_def spread_def get_prop_merge_props clone_id)

lemma service_defaults_no_name:
  assumes "distinct (map fst ps)" "wf_json (get_prop (JObj ps) ''name'')"
  shows "get_prop (mergeValue DefaultServiceConfig (JObj ps)) ''name'' = get_prop (JObj ps) ''name''"
  using assms
  by (simp add: DefaultServiceConfig_def DefaultConfigBase_def spread_def get_prop_merge_props clone_id)

lemma service_name_through_defaults:
  assumes "wf_json v"
  shows "get_prop (mergeValue DefaultServiceConfig v) ''name'' = get_prop v ''name''"
proof (cases v)
  case (JObj ps)
  with assms have "distinct (map fst ps)" "wf_json (get_prop (JObj ps) ''name'')"
    using get_prop_wf [of ps "''name''"] by simp_all
  then show ?thesis unfolding JObj by (rule service_defaults_no_name)
qed (simp_all add: DefaultServiceConfig_def DefaultConfigBase_def spread_def)

lemma getServiceFromKey_segments:
  "getServiceFromKey (Some k) =
     (if takeWhile (\<lambda>c. c \<noteq> CHR '':'') k = ''service'' \<and> CHR '':'' \<in> set k
      then Some (takeWhile (\<lambda>c. c \<noteq> CHR '':'') (tl (dropWhile (\<lambda>c. c \<noteq> CHR '':'') k)))
      else None)"
proof (cases "CHR '':'' \<in> set k")
  case False
  then show ?thesis
    by (simp add: getServiceFromKey_def split_on_no_sep)
next
  case True
  let ?rest = "tl (dropWhile (\<lambda>c. c \<noteq> CHR '':'') k)"
  have "split_on CHR '':'' k = takeWhile (\<lambda>c. c \<noteq> CHR '':'') k # split_on CHR '':'' ?rest"
    using True split_on_unfold [of "CHR '':''" k] by simp
  moreover have "split_on CHR '':'' ?rest =
      takeWhile (\<lambda>c. c \<noteq> CHR '':'') ?rest #
      (if CHR '':'' \<in> set ?rest
       then split_on CHR '':'' (tl (dropWhile (\<lambda>c. c \<noteq> CHR '':'') ?rest)) else [])"
    by (rule split_on_unfold)
  moreover from True have "k \<noteq> []" by auto
  ultimately show ?thesis
    using True by (simp add: getServiceFromKey_def split: list.splits)
qed

lemma private_tag_setDefaults [simp]:
  "private_tag (snd (setDefaults p c)) = private_tag c"
  by (simp add: setDefaults_def Let_def)

lemma synthesizeConfig_object:
  assumes "config l = JObj cs" "distinct (map fst cs)"
  shows "\<exists>b X. synthesizeConfig t (Some l) nm = JObj (AList.update b X cs)
           \<and> (b = ''client'' \<or> b = ''service'')"
  using assms by (cases t) (auto simp: synthesizeConfig_def spread_empty_object)

lemma loadConfig_Inr:
  assumes ok: "loadConfig env s = Inr c"
    and found: "search env (getSearchPlaces (configFileName s)) (configPath s) = Some l"
    and doc: "config l = JObj cs" and dist: "distinct (map fst cs)"
  obtains cs' where
    "rawConfig c = applyDefaults (engineConfigOf (envApiKey env (configPath s))) (JObj cs')"
    "distinct (map fst cs')"
    "\<And>k. k \<noteq> ''client'' \<Longrightarrow> k \<noteq> ''service'' \<Longrightarrow> get_prop (JObj cs') k = get_prop (JObj cs) k"
    "engine c = get_prop (rawConfig c) ''engine''"
proof -
  let ?e = "engineConfigOf (envApiKey env (configPath s))"
  let ?nm0 = "or_else (nameSetting s) (getServiceFromKey (envApiKey env (configPath s)))"
  from ok found obtain t nm where
    rt: "resolveTypeAndName (typeSetting s) (Some l) ?nm0 = Inr (t, nm)"
    by (cases "resolveTypeAndName (typeSetting s) (Some l) ?nm0")
       (auto simp: loadConfig_def Let_def)
  define loaded where "loaded =
     (if nonempty nm
      then \<lparr>config = synthesizeConfig t (Some l) nm,
            filepath = (if nonempty (configPath s) then the (configPath s) else cwd env),
            isEmpty = False\<rparr>
      else l)"
  from ok found rt have c: "c =
     \<lparr>rawConfig = applyDefaults ?e (config loaded),
      configURI = Some (URI_file (resolve env [filepath loaded])),
      isClient = truthy (get_prop (applyDefaults ?e (config loaded)) ''client''),
      isService = truthy (get_prop (applyDefaults ?e (config loaded)) ''service''),
      engine = get_prop (applyDefaults ?e (config loaded)) ''engine'',
      name = getServiceName (applyDefaults ?e (config loaded)),
      service = get_prop (applyDefaults ?e (config loaded)) ''service'',
      client = get_prop (applyDefaults ?e (config loaded)) ''client'',
      private_tag = None\<rparr>"
    by (auto simp: loadConfig_def Let_def loaded_def new_ApolloConfig_def split: if_splits)
  show thesis
  proof (cases "nonempty nm")
    case True
    from synthesizeConfig_object [OF doc dist, of t nm] obtain b X where
      syn: "synthesizeConfig t (Some l) nm = JObj (AList.update b X cs)"
      and b: "b = ''client'' \<or> b = ''service''" by blast
    show ?thesis
    proof (rule that [of "AList.update b X cs"])
      show "rawConfig c = applyDefaults ?e (JObj (AList.update b X cs))"
        using True by (simp add: c loaded_def syn)
      show "distinct (map fst (AList.update b X cs))"
        using dist by (simp add: distinct_update)
      show "get_prop (JObj (AList.update b X cs)) k = get_prop (JObj cs) k"
        if "k \<noteq> ''client''" "k \<noteq> ''service''" for k
        using that b by auto
      show "engine c = get_prop (rawConfig c) ''engine''" by (simp add: c)
    qed
  next
    case False
    show ?thesis
    proof (rule that [of cs])
      show "rawConfig c = applyDefaults ?e (JObj cs)"
        using False by (simp add: c loaded_def doc)
      show "engine c = get_prop (rawConfig c) ''engine''" by (simp add: c)
    qed (use dist in simp_all)
  qed
qed

lemma loadConfig_engine:
  assumes ok: "loadConfig env s = Inr c"
    and found: "search env (getSearchPlaces (configFileName s)) (configPath s) = Some l"
    and doc: "config l = JObj cs" and wf: "wf_json (JObj cs)"
  shows "engine c = mergeValue DefaultEngineConfig
           (mergeValue (get_prop (engineConfigOf (envApiKey env (configPath s))) ''engine'')
              (get_prop (JObj cs) ''engine''))"
proof -
  from wf have dist: "distinct (map fst cs)" by simp
  from loadConfig_Inr [OF ok found doc dist] obtain cs' where cs':
    "rawConfig c = applyDefaults (engineConfigOf (envApiKey env (configPath s))) (JObj cs')"
    "distinct (map fst cs')"
    "\<And>k. k \<noteq> ''client'' \<Longrightarrow> k \<noteq> ''service'' \<Longrightarrow> get_prop (JObj cs') k = get_prop (JObj cs) k"
    "engine c = get_prop (rawConfig c) ''engine''" by blast
  have e: "get_prop (JObj cs') ''engine'' = get_prop (JObj cs) ''engine''"
    by (rule cs'(3)) simp_all
  have "wf_json (get_prop (JObj cs') ''engine'')"
    using wf get_prop_wf [of cs "''engine''"] by (simp only: e)
  from applyDefaults_reads [OF cs'(2) this] show ?thesis
    by (simp add: cs'(1,4) e)
qed

lemma engine_layers_read:
  assumes "wf_json (JObj es)"
  shows "get_prop (mergeValue DefaultEngineConfig
            (mergeValue (get_prop (engineConfigOf key) ''engine'') (JObj es))) k
         = mergeValue (get_prop DefaultEngineConfig k)
             (mergeValue (get_prop (get_prop (engineConfigOf key) ''engine'') k)
                (get_prop (JObj es) k))"
proof -
  have d: "distinct (map fst es)" using assms by simp
  have w: "wf_json (get_prop (JObj es) j)" for j using assms by (rule get_prop_wf)
  have c: "merge_props [] es = es" using assms by (rule clone_props)
  show ?thesis
    by (cases key)
       (simp_all add: engineConfigOf_def DefaultEngineConfig_def get_prop_merge_props
          distinct_merge_props d c clone_id [OF w])
qed

lemma scalar_wins: "is_scalar v \<Longrightarrow> mergeValue d v = v"
  by (cases v) simp_all

lemma string_service_truthy:
  "get_prop c ''service'' = JStr sp \<Longrightarrow> truthy c"
  by (cases c) simp_all

lemma resolveTypeAndName_found:
  assumes "\<not> nullish (config l)"
  shows "resolveTypeAndName ty (Some l) nm0 =
     (if ty = None \<and> \<not> truthy (get_prop (config l) ''client'')
          \<and> \<not> truthy (get_prop (config l) ''service'')
      then Inl UnresolvedProjectType
      else Inr (case ty of
                  Some t \<Rightarrow> t
                | None \<Rightarrow> if truthy (get_prop (config l) ''client'') then Client else Service,
                case get_prop (get_prop (config l) ''client'') ''service'' of
                  JStr sp \<Rightarrow> Some sp
                | _ \<Rightarrow> nm0))"
proof (cases "truthy (get_prop (config l) ''client'')")
  case True
  with assms show ?thesis
    by (cases ty; cases "get_prop (get_prop (config l) ''client'') ''service''")
       (simp_all add: resolveTypeAndName_def)
next
  case False
  then have "\<forall>sp. get_prop (get_prop (config l) ''client'') ''service'' \<noteq> JStr sp"
    using string_service_truthy by blast
  with False assms show ?thesis
    by (cases ty; cases "get_prop (get_prop (config l) ''client'') ''service''")
       (simp_all add: resolveTypeAndName_def)
qed



lemma applyDefaults_truthy:
  assumes d: "distinct (map fst cs)" and k: "k = ''client'' \<or> k = ''service''"
  shows "truthy (get_prop (applyDefaults (engineConfigOf key) (JObj cs)) k)
         = truthy (get_prop (JObj cs) k)"
proof -
  note simps = merge_objects_props engineConfigOf_def get_prop_merge_props distinct_merge_props
    d truthy_mergeValue
  from k show ?thesis
    unfolding applyDefaults_def Let_def
    by (cases "truthy (get_prop (JObj cs) ''client'')";
        cases "truthy (get_prop (JObj cs) ''service'')"; cases key)
       (auto simp: simps)
qed

section \<open>Claims\<close>

subsection \<open>C8: the specifier parser\<close>

text \<open>
  C8, as stated: for every input string the parser splits on the first \<^verbatim>\<open>@\<close> and
  trims both parts. The code splits on every \<^verbatim>\<open>@\<close> and keeps the first two
  segments, so a string with two \<^verbatim>\<open>@\<close> loses what follows the second one:
  \<^verbatim>\<open>"a@b@c"\<close> yields the tag \<^verbatim>\<open>b\<close>, where splitting on the first \<^verbatim>\<open>@\<close> yields
  \<^verbatim>\<open>b@c\<close>.
\<close>

theorem C8_two_separators_counterexample:
  "parseServiceSpecificer ''a@b@c'' = (''a'', Some ''b'')
   \<and> spec_SpecifierParser ''a@b@c'' = (''a'', Some ''b@c'')
   \<and> parseServiceSpecificer ''a@b@c'' \<noteq> spec_SpecifierParser ''a@b@c''"
  by (simp add: parseServiceSpecificer_def spec_SpecifierParser_def trim_def is_space_def)

text \<open>
  C8, amended: for every input string, the id is the trimmed text before the
  first \<^verbatim>\<open>@\<close> and the tag is the trimmed text between the first and the second
  \<^verbatim>\<open>@\<close> (up to the end when there is only one), undefined when there is no
  \<^verbatim>\<open>@\<close>. For a string with at most one \<^verbatim>\<open>@\<close> this is the split on the first
  \<^verbatim>\<open>@\<close>: \<^verbatim>\<open>"id@tag"\<close> yields (id, tag), both trimmed, \<^verbatim>\<open>"id"\<close> yields
  (id, undefined), and the empty string yields ("", undefined).
\<close>

theorem C8_parseServiceSpecificer:
  "parseServiceSpecificer s =
     (trim (takeWhile (\<lambda>c. c \<noteq> CHR ''@'') s),
      if CHR ''@'' \<in> set s
      then Some (trim (takeWhile (\<lambda>c. c \<noteq> CHR ''@'')
                   (tl (dropWhile (\<lambda>c. c \<noteq> CHR ''@'') s))))
      else None)
   \<and> (count_list s CHR ''@'' \<le> 1 \<longrightarrow> parseServiceSpecificer s = spec_SpecifierParser s)
   \<and> (CHR ''@'' \<notin> set i \<and> CHR ''@'' \<notin> set t \<longrightarrow>
        parseServiceSpecificer (i @ ''@'' @ t) = (trim i, Some (trim t)))
   \<and> (CHR ''@'' \<notin> set i \<longrightarrow> parseServiceSpecificer i = (trim i, None))
   \<and> parseServiceSpecificer [] = ([], None)"
proof (intro conjI impI)
  show "parseServiceSpecificer s =
     (trim (takeWhile (\<lambda>c. c \<noteq> CHR ''@'') s),
      if CHR ''@'' \<in> set s
      then Some (trim (takeWhile (\<lambda>c. c \<noteq> CHR ''@'')
                   (tl (dropWhile (\<lambda>c. c \<noteq> CHR ''@'') s))))
      else None)"
    by (rule parseServiceSpecificer_segments)
next
  assume le: "count_list s CHR ''@'' \<le> 1"
  show "parseServiceSpecificer s = spec_SpecifierParser s"
  proof (cases "CHR ''@'' \<in> set s")
    case True
    with le have "CHR ''@'' \<notin> set (tl (dropWhile (\<lambda>x. x \<noteq> CHR ''@'') s))"
      by (simp add: single_occurrence_rest)
    then show ?thesis
      using True
      by (simp add: parseServiceSpecificer_segments spec_SpecifierParser_def takeWhile_no_sep)
  next
    case False
    then show ?thesis
      by (simp add: parseServiceSpecificer_segments spec_SpecifierParser_def takeWhile_no_sep)
  qed
next
  assume "CHR ''@'' \<notin> set i \<and> CHR ''@'' \<notin> set t"
  then show "parseServiceSpecificer (i @ ''@'' @ t) = (trim i, Some (trim t))"
    by (simp add: parseServiceSpecificer_def split_on_append_sep split_on_no_sep)
next
  assume "CHR ''@'' \<notin> set i"
  then show "parseServiceSpecificer i = (trim i, None)"
    by (simp add: parseServiceSpecificer_def split_on_no_sep)
next
  show "parseServiceSpecificer [] = ([], None)"
    by (simp add: parseServiceSpecificer_def trim_def)
qed

text \<open>C8, at \<^verbatim>\<open>"pay@beta"\<close>, \<^verbatim>\<open>" pay @ beta "\<close> and \<^verbatim>\<open>"pay"\<close>.\<close>

theorem C8_parseServiceSpecificer_witness:
  "count_list ''pay@beta'' CHR ''@'' \<le> 1
   \<and> parseServiceSpecificer ''pay@beta'' = spec_SpecifierParser ''pay@beta''
   \<and> parseServiceSpecificer ('' pay '' @ ''@'' @ '' beta '') = (''pay'', Some ''beta'')
   \<and> parseServiceSpecificer ''pay'' = (''pay'', None)"
  using C8_parseServiceSpecificer [of "''pay@beta''" "'' pay ''" "'' beta ''"]
    C8_parseServiceSpecificer [of "''pay@beta''" "''pay''" "[]"]
  by (simp add: trim_def is_space_def)

subsection \<open>C1: the document wins over the defaults\<close>

text \<open>
  C1, as stated: every key of the document keeps the document's value after the
  defaults merge, and a present array replaces the default array rather than
  being merged element-wise. lodash's \<^verbatim>\<open>merge\<close> merges arrays index by index: a
  document with \<^verbatim>\<open>client.excludes = ["a"]\<close> resolves to
  \<^verbatim>\<open>["a", "**/__tests__"]\<close>, the second default element surviving.
\<close>

theorem C1_array_merged_counterexample:
  "get_path (applyDefaults (engineConfigOf None)
      (JObj [(''client'', JObj [(''service'', JStr ''pay''), (''excludes'', JArr [JStr ''a''])])]))
     [''client'', ''excludes''] = JArr [JStr ''a'', JStr ''**/__tests__'']
   \<and> get_path (applyDefaults (engineConfigOf None)
      (JObj [(''client'', JObj [(''service'', JStr ''pay''), (''excludes'', JArr [JStr ''a''])])]))
     [''client'', ''excludes'']
     \<noteq> get_path
      (JObj [(''client'', JObj [(''service'', JStr ''pay''), (''excludes'', JArr [JStr ''a''])])])
      [''client'', ''excludes'']"
  by (simp add: applyDefaults_def engineConfigOf_def merge_def merge_into_def
      DefaultClientConfig_def DefaultConfigBase_def DefaultEngineStatsWindow_def
      DefaultEngineConfig_def spread_def)

text \<open>
  C1, amended: the defaults merge of lines 381--386 is a deep merge in which the
  document wins. For every document (an object with distinct keys that puts no
  plain object where the client or service defaults hold an array), every
  scalar value of the document (a string, number, boolean or null), at any depth
  of nested objects, is the value of the resolved document at the same path.
  Arrays are merged by index: where the defaults hold the array \<open>xs\<close> and the
  document holds an array \<open>ys\<close> of scalars at the same path, the resolved array
  is \<open>ys\<close> followed by the elements of \<open>xs\<close> beyond the length of \<open>ys\<close>.
\<close>

theorem C1_document_wins:
  assumes "wf_json (JObj cs)"
    and "mergeable DefaultClientConfig (get_prop (JObj cs) ''client'')"
    and "mergeable DefaultServiceConfig (get_prop (JObj cs) ''service'')"
  shows "(is_scalar (get_path (JObj cs) p) \<longrightarrow>
            get_path (applyDefaults (engineConfigOf key) (JObj cs)) p = get_path (JObj cs) p)
       \<and> (get_path (JObj [(''client'', DefaultClientConfig), (''service'', DefaultServiceConfig)]) q
             = JArr xs
          \<and> get_path (JObj cs) q = JArr ys \<and> (\<forall>y \<in> set ys. is_scalar y) \<longrightarrow>
            get_path (applyDefaults (engineConfigOf key) (JObj cs)) q
              = JArr (ys @ drop (length ys) xs))"
  using assms applyDefaults_keeps_scalars [of cs p key] applyDefaults_arrays [of cs q xs ys key]
  by blast

text \<open>
  C1, at the document \<^verbatim>\<open>{client: {service: "pay", excludes: ["a"]}}\<close> with the API
  key \<^verbatim>\<open>k\<close>: \<^verbatim>\<open>client.service\<close> stays \<^verbatim>\<open>"pay"\<close>, and \<^verbatim>\<open>client.excludes\<close> becomes
  \<^verbatim>\<open>["a", "**/__tests__"]\<close>.
\<close>

theorem C1_document_wins_witness:
  "wf_json (JObj [(''client'', JObj [(''service'', JStr ''pay''), (''excludes'', JArr [JStr ''a''])])])
   \<and> mergeable DefaultClientConfig
        (JObj [(''service'', JStr ''pay''), (''excludes'', JArr [JStr ''a''])])
   \<and> get_path (applyDefaults (engineConfigOf (Some ''k''))
        (JObj [(''client'', JObj [(''service'', JStr ''pay''), (''excludes'', JArr [JStr ''a''])])]))
        [''client'', ''service''] = JStr ''pay''
   \<and> get_path (applyDefaults (engineConfigOf (Some ''k''))
        (JObj [(''client'', JObj [(''service'', JStr ''pay''), (''excludes'', JArr [JStr ''a''])])]))
        [''client'', ''excludes''] = JArr [JStr ''a'', JStr ''**/__tests__'']"
  using C1_document_wins
    [of "[(''client'', JObj [(''service'', JStr ''pay''), (''excludes'', JArr [JStr ''a''])])]"
        "[''client'', ''service'']" "Some ''k''" "[''client'', ''excludes'']"
        "[JStr ''**/node_modules'', JStr ''**/__tests__'']" "[JStr ''a'']"]
  by (simp add: DefaultClientConfig_def DefaultConfigBase_def DefaultEngineStatsWindow_def
      spread_def)

subsection \<open>C9: merging the defaults twice\<close>

text \<open>
  C9: the defaults merge is idempotent. For every configuration document (an
  object with distinct keys that puts no plain object where the client or service
  defaults hold an array) and every API key of the secrets file, applying the
  default layering of lines 381--386 to its own result yields that result again,
  as the same value with the same key order.
\<close>

theorem C9_defaults_idempotent:
  assumes "wf_json (JObj cs)"
    and "mergeable DefaultClientConfig (get_prop (JObj cs) ''client'')"
    and "mergeable DefaultServiceConfig (get_prop (JObj cs) ''service'')"
  shows "applyDefaults (engineConfigOf key) (applyDefaults (engineConfigOf key) (JObj cs))
         = applyDefaults (engineConfigOf key) (JObj cs)"
  using assms(1) by (rule applyDefaults_idem)

text \<open>
  C9, at the document
  \<^verbatim>\<open>{service: {name: "cart"}, client: {service: "pay", excludes: ["a"]}, engine: {endpoint: "e"}}\<close>
  with the API key \<^verbatim>\<open>k\<close>.
\<close>

theorem C9_defaults_idempotent_witness:
  "wf_json (JObj [(''service'', JObj [(''name'', JStr ''cart'')]),
                  (''client'', JObj [(''service'', JStr ''pay''), (''excludes'', JArr [JStr ''a''])]),
                  (''engine'', JObj [(''endpoint'', JStr ''e'')])])
   \<and> mergeable DefaultClientConfig
        (JObj [(''service'', JStr ''pay''), (''excludes'', JArr [JStr ''a''])])
   \<and> mergeable DefaultServiceConfig (JObj [(''name'', JStr ''cart'')])
   \<and> applyDefaults (engineConfigOf (Some ''k'')) (applyDefaults (engineConfigOf (Some ''k''))
        (JObj [(''service'', JObj [(''name'', JStr ''cart'')]),
               (''client'', JObj [(''service'', JStr ''pay''), (''excludes'', JArr [JStr ''a''])]),
               (''engine'', JObj [(''endpoint'', JStr ''e'')])]))
      = applyDefaults (engineConfigOf (Some ''k''))
        (JObj [(''service'', JObj [(''name'', JStr ''cart'')]),
               (''client'', JObj [(''service'', JStr ''pay''), (''excludes'', JArr [JStr ''a''])]),
               (''engine'', JObj [(''endpoint'', JStr ''e'')])])"
  using C9_defaults_idempotent
    [of "[(''service'', JObj [(''name'', JStr ''cart'')]),
          (''client'', JObj [(''service'', JStr ''pay''), (''excludes'', JArr [JStr ''a''])]),
          (''engine'', JObj [(''endpoint'', JStr ''e'')])]" "Some ''k''"]
  by (simp add: DefaultClientConfig_def DefaultServiceConfig_def DefaultConfigBase_def
      DefaultEngineStatsWindow_def spread_def)

subsection \<open>C7: the name inside the API key\<close>

text \<open>
  C7: \<^verbatim>\<open>getServiceFromKey\<close> returns the name of a key \<^verbatim>\<open>service:<name>\<close>, the name
  being the segment that follows the prefix (all of the rest when the rest has no
  further colon), and \<^verbatim>\<open>undefined\<close> when the first segment is not exactly
  \<^verbatim>\<open>service\<close> or there is no key. Consequently, when the secrets file defines
  \<^verbatim>\<open>ENGINE_API_KEY = "service:cart"\<close>, the loaded document has only a client block
  whose \<^verbatim>\<open>service\<close> is not a string, and neither a name nor a type is supplied,
  resolution yields a client project named \<^verbatim>\<open>cart\<close>.
\<close>

theorem C7_name_from_key:
  "(CHR '':'' \<notin> set n \<longrightarrow> getServiceFromKey (Some (''service:'' @ n)) = Some n)
   \<and> getServiceFromKey (Some (''service:'' @ n))
       = Some (takeWhile (\<lambda>c. c \<noteq> CHR '':'') n)
   \<and> (takeWhile (\<lambda>c. c \<noteq> CHR '':'') k \<noteq> ''service'' \<longrightarrow> getServiceFromKey (Some k) = None)
   \<and> getServiceFromKey None = None
   \<and> (search env (getSearchPlaces (configFileName s)) (configPath s) = Some l
        \<and> config l = JObj [(''client'', JObj block)]
        \<and> wf_json (JObj block)
        \<and> (\<forall>sp. get_prop (JObj block) ''service'' \<noteq> JStr sp)
        \<and> dotenv env (dotEnvPath env (configPath s)) = Some vars
        \<and> vars ''ENGINE_API_KEY'' = Some ''service:cart''
        \<and> nameSetting s = None \<and> typeSetting s = None
       \<longrightarrow> (\<exists>c. loadConfig env s = Inr c \<and> isClient c \<and> \<not> isService c
                \<and> name c = JStr ''cart''))"
proof (intro conjI impI)
  show "getServiceFromKey (Some (''service:'' @ n)) = Some (takeWhile (\<lambda>c. c \<noteq> CHR '':'') n)"
    by (simp add: getServiceFromKey_segments)
  then show "getServiceFromKey (Some (''service:'' @ n)) = Some n" if "CHR '':'' \<notin> set n"
    using that by (simp add: takeWhile_no_sep)
  show "getServiceFromKey (Some k) = None" if "takeWhile (\<lambda>c. c \<noteq> CHR '':'') k \<noteq> ''service''"
    using that by (simp add: getServiceFromKey_segments)
  show "getServiceFromKey None = None"
    by (simp add: getServiceFromKey_def)
next
  assume a: "search env (getSearchPlaces (configFileName s)) (configPath s) = Some l
        \<and> config l = JObj [(''client'', JObj block)]
        \<and> wf_json (JObj block)
        \<and> (\<forall>sp. get_prop (JObj block) ''service'' \<noteq> JStr sp)
        \<and> dotenv env (dotEnvPath env (configPath s)) = Some vars
        \<and> vars ''ENGINE_API_KEY'' = Some ''service:cart''
        \<and> nameSetting s = None \<and> typeSetting s = None"
  define X where "X = JObj (AList.update ''service'' (JStr ''cart'')
              (spread (spread [] DefaultConfigBase) (JObj block)))"
  define R where "R = applyDefaults (engineConfigOf (Some ''service:cart'')) (JObj [(''client'', X)])"
  define C where "C = mergeValue DefaultClientConfig X"
  have key: "envApiKey env (configPath s) = Some ''service:cart''"
    using a by (simp add: envApiKey_def nonempty_def)
  have nm: "getServiceFromKey (Some ''service:cart'') = Some ''cart''"
    by (simp add: getServiceFromKey_segments)
  have rt: "resolveTypeAndName None (Some l) (Some ''cart'') = Inr (Client, Some ''cart'')"
    using a by (auto simp: resolveTypeAndName_def split: json.splits)
  have syn: "synthesizeConfig Client (Some l) (Some ''cart'') = JObj [(''client'', X)]"
    using a by (simp add: synthesizeConfig_def spread_def of_string_option_def X_def)
  have wfX: "wf_json X"
    unfolding X_def
  proof (intro wf_update wf_spread_object)
    show "wf_json (JObj (spread [] DefaultConfigBase))" by (rule wf_spread_base)
    show "wf_json (JObj block)" using a by blast
    show "wf_json (JStr ''cart'')" by simp
  qed
  have tX: "truthy X" by (simp add: X_def)
  have cl: "get_prop R ''client'' = C"
    unfolding R_def C_def using wfX tX by (subst applyDefaults_reads) simp_all
  have sv: "get_prop R ''service'' = JUndefined"
    unfolding R_def by (subst applyDefaults_reads) simp_all
  have tC: "truthy C"
    unfolding C_def using tX by (rule truthy_mergeValue)
  have svc: "get_prop C ''service'' = JStr ''cart''"
    unfolding C_def X_def
    by (subst client_defaults_no_service)
       (use wfX in \<open>simp_all add: X_def\<close>)
  have cart: "parseServiceSpecificer ''cart'' = (''cart'', None)"
    by (simp add: parseServiceSpecificer_def trim_def is_space_def)
  have nn: "\<not> nullish R" by (simp add: R_def)
  have run: "loadConfig env s = new_ApolloConfig R
      (Some (URI_file (resolve env
         [if nonempty (configPath s) then the (configPath s) else cwd env])))"
    using a by (simp add: loadConfig_def key nm rt syn Let_def or_else_def nonempty_def R_def)
  show "\<exists>c. loadConfig env s = Inr c \<and> isClient c \<and> \<not> isService c \<and> name c = JStr ''cart''"
    by (simp add: run new_ApolloConfig_def nn getServiceName_def cl sv tC svc cart)
qed

text \<open>
  C7, at the keys \<^verbatim>\<open>service:cart\<close> and \<^verbatim>\<open>Service:cart\<close>, and at the document
  \<^verbatim>\<open>{client: {includes: []}}\<close> found in \<^verbatim>\<open>/proj/package.json\<close>.
\<close>

theorem C7_name_from_key_witness:
  "getServiceFromKey (Some ''service:cart'') = Some ''cart''
   \<and> getServiceFromKey (Some ''Service:cart'') = None
   \<and> (\<exists>c. loadConfig
          (example_environment
             (Some \<lparr>config = JObj [(''client'', JObj [(''includes'', JArr [])])],
                    filepath = ''/proj/package.json'', isEmpty = False\<rparr>)
             (Some ''service:cart''))
          (example_settings None None) = Inr c
        \<and> isClient c \<and> \<not> isService c \<and> name c = JStr ''cart'')"
  using C7_name_from_key
    [of "''cart''" "''Service:cart''"
        "example_environment
             (Some \<lparr>config = JObj [(''client'', JObj [(''includes'', JArr [])])],
                    filepath = ''/proj/package.json'', isEmpty = False\<rparr>)
             (Some ''service:cart'')"
        "example_settings None None"
        "\<lparr>config = JObj [(''client'', JObj [(''includes'', JArr [])])],
           filepath = ''/proj/package.json'', isEmpty = False\<rparr>"
        "[(''includes'', JArr [])]" "[''ENGINE_API_KEY'' \<mapsto> ''service:cart'']"]
  by (simp add: example_environment_def example_settings_def)

subsection \<open>C5: the tag\<close>

text \<open>
  C5, as stated: the derived tag is cached after the first read, so later reads
  return the same value even if the client block changes; and an explicitly
  assigned tag always wins. The getter assigns nothing: after \<^verbatim>\<open>setDefaults\<close>
  replaced the specifier \<^verbatim>\<open>pay@beta\<close> by \<^verbatim>\<open>pay@prod\<close>, a configuration whose tag
  read \<^verbatim>\<open>beta\<close> reads \<^verbatim>\<open>prod\<close>. And the getter tests \<^verbatim>\<open>_tag\<close> for truthiness, so
  an assigned empty string does not win.
\<close>

theorem C5_tag_not_cached_counterexample:
  "new_ApolloConfig (JObj [(''client'', JObj [(''service'', JStr ''pay@beta'')])]) None
     = Inr \<lparr>rawConfig = JObj [(''client'', JObj [(''service'', JStr ''pay@beta'')])],
            configURI = None, isClient = True, isService = False, engine = JUndefined,
            name = JStr ''pay'', service = JUndefined,
            client = JObj [(''service'', JStr ''pay@beta'')], private_tag = None\<rparr>
   \<and> get_tag \<lparr>rawConfig = JObj [(''client'', JObj [(''service'', JStr ''pay@beta'')])],
            configURI = None, isClient = True, isService = False, engine = JUndefined,
            name = JStr ''pay'', service = JUndefined,
            client = JObj [(''service'', JStr ''pay@beta'')], private_tag = None\<rparr> = ''beta''
   \<and> get_tag (snd (setDefaults (JObj [(''client'', JObj [(''service'', JStr ''pay@prod'')])])
        \<lparr>rawConfig = JObj [(''client'', JObj [(''service'', JStr ''pay@beta'')])],
            configURI = None, isClient = True, isService = False, engine = JUndefined,
            name = JStr ''pay'', service = JUndefined,
            client = JObj [(''service'', JStr ''pay@beta'')], private_tag = None\<rparr>)) = ''prod''
   \<and> get_tag (set_tag []
        \<lparr>rawConfig = JObj [(''client'', JObj [(''service'', JStr ''pay@beta'')])],
            configURI = None, isClient = True, isService = False, engine = JUndefined,
            name = JStr ''pay'', service = JUndefined,
            client = JObj [(''service'', JStr ''pay@beta'')], private_tag = None\<rparr>) = ''beta''"
  by (simp add: new_ApolloConfig_def getServiceName_def parseServiceSpecificer_def trim_def
      is_space_def get_tag_def set_tag_def nonempty_def setDefaults_def merge_def merge_into_def
      Let_def)

text \<open>
  C5, amended: reading \<^verbatim>\<open>tag\<close> returns an explicitly assigned tag whenever a
  non-empty one was set; otherwise the tag is derived, at every read, from the
  client block as it is at that read: the non-empty tag embedded in the client's
  string specifier, and \<^verbatim>\<open>"current"\<close> otherwise. Nothing is cached: after
  \<^verbatim>\<open>setDefaults\<close> the tag follows the new client block.
\<close>

theorem C5_tag:
  "(t \<noteq> [] \<longrightarrow> get_tag (set_tag t c) = t)
   \<and> (\<not> nonempty (private_tag c) \<longrightarrow>
        get_tag c =
          (case get_prop (client c) ''service'' of
             JStr sp \<Rightarrow>
               (case snd (parseServiceSpecificer sp) of
                  Some tg \<Rightarrow> if tg \<noteq> [] then tg else ''current''
                | None \<Rightarrow> ''current'')
           | _ \<Rightarrow> ''current''))
   \<and> (\<not> nonempty (private_tag c) \<longrightarrow>
        get_tag (snd (setDefaults p c)) =
          (case get_prop (client (snd (setDefaults p c))) ''service'' of
             JStr sp \<Rightarrow>
               (case snd (parseServiceSpecificer sp) of
                  Some tg \<Rightarrow> if tg \<noteq> [] then tg else ''current''
                | None \<Rightarrow> ''current'')
           | _ \<Rightarrow> ''current''))"
proof -
  have derive: "get_tag x =
          (case get_prop (client x) ''service'' of
             JStr sp \<Rightarrow>
               (case snd (parseServiceSpecificer sp) of
                  Some tg \<Rightarrow> if tg \<noteq> [] then tg else ''current''
                | None \<Rightarrow> ''current'')
           | _ \<Rightarrow> ''current'')" if "\<not> nonempty (private_tag x)" for x
    using that
    by (cases "client x")
       (auto simp: get_tag_def nonempty_def Let_def split: json.splits option.splits)
  show ?thesis
    using derive [of c] derive [of "snd (setDefaults p c)"]
    by (simp add: get_tag_def set_tag_def nonempty_def)
qed

text \<open>
  C5, at a configuration with the specifier \<^verbatim>\<open>pay@beta\<close>: the assigned tag
  \<^verbatim>\<open>staging\<close> is read back, the derived tag is \<^verbatim>\<open>beta\<close>, and after \<^verbatim>\<open>setDefaults\<close>
  with the specifier \<^verbatim>\<open>pay\<close> it is \<^verbatim>\<open>current\<close>.
\<close>

theorem C5_tag_witness:
  "get_tag (set_tag ''staging''
        \<lparr>rawConfig = JObj [(''client'', JObj [(''service'', JStr ''pay@beta'')])],
            configURI = None, isClient = True, isService = False, engine = JUndefined,
            name = JStr ''pay'', service = JUndefined,
            client = JObj [(''service'', JStr ''pay@beta'')], private_tag = None\<rparr>) = ''staging''
   \<and> get_tag \<lparr>rawConfig = JObj [(''client'', JObj [(''service'', JStr ''pay@beta'')])],
            configURI = None, isClient = True, isService = False, engine = JUndefined,
            name = JStr ''pay'', service = JUndefined,
            client = JObj [(''service'', JStr ''pay@beta'')], private_tag = None\<rparr> = ''beta''
   \<and> get_tag (snd (setDefaults (JObj [(''client'', JObj [(''service'', JStr ''pay'')])])
        \<lparr>rawConfig = JObj [(''client'', JObj [(''service'', JStr ''pay@beta'')])],
            configURI = None, isClient = True, isService = False, engine = JUndefined,
            name = JStr ''pay'', service = JUndefined,
            client = JObj [(''service'', JStr ''pay@beta'')], private_tag = None\<rparr>)) = ''current''"
  using C5_tag [of "''staging''"
        "\<lparr>rawConfig = JObj [(''client'', JObj [(''service'', JStr ''pay@beta'')])],
            configURI = None, isClient = True, isService = False, engine = JUndefined,
            name = JStr ''pay'', service = JUndefined,
            client = JObj [(''service'', JStr ''pay@beta'')], private_tag = None\<rparr>"
        "JObj [(''client'', JObj [(''service'', JStr ''pay'')])]"]
  by (simp add: nonempty_def parseServiceSpecificer_def trim_def is_space_def setDefaults_def
      merge_def merge_into_def Let_def)

subsection \<open>C6: the configuration directory\<close>

text \<open>
  C6, as stated: \<^verbatim>\<open>configDirURI\<close> is the parent directory exactly for an
  executable config module (\<^verbatim>\<open>.js\<close> or \<^verbatim>\<open>.ts\<close>) and the location itself for a
  static document such as \<^verbatim>\<open>package.json\<close>. The getter tests whether the path
  contains \<^verbatim>\<open>.js\<close>: \<^verbatim>\<open>/proj/package.json\<close> contains it (in \<^verbatim>\<open>.json\<close>) and yields
  \<^verbatim>\<open>URI.parse("/proj")\<close>, whose \<^verbatim>\<open>fsPath\<close> is the parent \<^verbatim>\<open>/proj\<close>, and
  \<^verbatim>\<open>/proj/apollo.config.ts\<close> does not and yields the file itself.
\<close>

theorem C6_substring_js_counterexample:
  "map_sum id (map_option fsPath)
     (configDirURI example_URI_parse
        \<lparr>rawConfig = JObj [], configURI = Some (URI_file ''/proj/package.json''),
         isClient = False, isService = False, engine = JUndefined, name = JUndefined,
         service = JUndefined, client = JUndefined, private_tag = None\<rparr>)
     = Inr (Some ''/proj'')
   \<and> configDirURI example_URI_parse
        \<lparr>rawConfig = JObj [], configURI = Some (URI_file ''/proj/apollo.config.ts''),
         isClient = False, isService = False, engine = JUndefined, name = JUndefined,
         service = JUndefined, client = JUndefined, private_tag = None\<rparr>
     = Inr (Some (URI_file ''/proj/apollo.config.ts''))"
  by (simp add: configDirURI_def URI_file_def example_URI_parse_def dirname_def)

text \<open>
  C6, amended: whenever the location's path contains \<^verbatim>\<open>.js\<close>, which holds for a
  \<^verbatim>\<open>.js\<close> config module and also for a static \<^verbatim>\<open>.json\<close> document such as
  \<^verbatim>\<open>package.json\<close>, \<^verbatim>\<open>configDirURI\<close> is \<^verbatim>\<open>URI.parse\<close> of the path's parent
  directory (Node's \<^verbatim>\<open>path.dirname\<close>), whatever \<^verbatim>\<open>URI.parse\<close> makes of it, its
  exception included; for a file \<open>f\<close> whose name contains \<^verbatim>\<open>.js\<close>, in a directory
  \<open>d\<close>, this is \<^verbatim>\<open>URI.parse\<close> of \<open>d\<close>. It returns the location itself when the
  path contains no \<^verbatim>\<open>.js\<close> and is not a \<^verbatim>\<open>.ts\<close> module (the directory of a
  synthesized document); and it is undefined when there is no location.
\<close>

theorem C6_configDirURI:
  "(configURI c = Some u \<and> includes_str (fsPath u) ''.js'' \<longrightarrow>
      configDirURI URI_parse c = map_sum id Some (URI_parse (dirname (fsPath u))))
   \<and> (configURI c = Some u \<and> fsPath u = d @ ''/'' @ f \<and> d \<noteq> [] \<and> last d \<noteq> CHR ''/''
        \<and> CHR ''/'' \<notin> set f \<and> includes_str f ''.js'' \<longrightarrow>
      configDirURI URI_parse c = map_sum id Some (URI_parse d))
   \<and> (configURI c = Some u \<and> \<not> includes_str (fsPath u) ''.js''
        \<and> drop (length (fsPath u) - 3) (fsPath u) \<noteq> ''.ts'' \<longrightarrow>
      configDirURI URI_parse c = Inr (Some u))
   \<and> (configURI c = None \<longrightarrow> configDirURI URI_parse c = Inr None)"
proof -
  have "dirname (d @ ''/'' @ f) = d \<and> includes_str (d @ ''/'' @ f) ''.js''"
    if "d \<noteq> []" "last d \<noteq> CHR ''/''" "CHR ''/'' \<notin> set f" "includes_str f ''.js''"
  proof -
    from that have "f \<noteq> []" by auto
    with that have "dirname (d @ ''/'' @ f) = d" by (intro dirname_parent)
    with that show ?thesis
      using includes_str_append [of f "''.js''" "d @ ''/''"] by simp
  qed
  then show ?thesis by (auto simp: configDirURI_def)
qed

text \<open>
  C6, at the file \<^verbatim>\<open>apollo.config.js\<close> in the directory \<^verbatim>\<open>/proj\<close> and at the
  directory \<^verbatim>\<open>/proj\<close> itself.
\<close>

theorem C6_configDirURI_witness:
  "configDirURI example_URI_parse
      \<lparr>rawConfig = JObj [], configURI = Some (URI_file ''/proj/apollo.config.js''),
       isClient = False, isService = False, engine = JUndefined, name = JUndefined,
       service = JUndefined, client = JUndefined, private_tag = None\<rparr>
     = map_sum id Some (example_URI_parse ''/proj'')
   \<and> configDirURI example_URI_parse
      \<lparr>rawConfig = JObj [], configURI = Some (URI_file ''/proj''),
       isClient = False, isService = False, engine = JUndefined, name = JUndefined,
       service = JUndefined, client = JUndefined, private_tag = None\<rparr>
     = Inr (Some (URI_file ''/proj''))"
  using C6_configDirURI [where c = "\<lparr>rawConfig = JObj [],
      configURI = Some (URI_file ''/proj/apollo.config.js''),
      isClient = False, isService = False, engine = JUndefined, name = JUndefined,
      service = JUndefined, client = JUndefined, private_tag = None\<rparr>"
      and u = "URI_file ''/proj/apollo.config.js''" and d = "''/proj''"
      and f = "''apollo.config.js''" and URI_parse = example_URI_parse]
   C6_configDirURI [where c = "\<lparr>rawConfig = JObj [], configURI = Some (URI_file ''/proj''),
      isClient = False, isService = False, engine = JUndefined, name = JUndefined,
      service = JUndefined, client = JUndefined, private_tag = None\<rparr>"
      and u = "URI_file ''/proj''" and d = "[]" and f = "[]" and URI_parse = example_URI_parse]
  by (auto simp: URI_file_def)

subsection \<open>C10: what setDefaults leaves unchanged\<close>

text \<open>
  C10: for every configuration and every partial document, \<^verbatim>\<open>setDefaults\<close>
  leaves \<^verbatim>\<open>name\<close>, \<^verbatim>\<open>isClient\<close>, \<^verbatim>\<open>isService\<close> and \<^verbatim>\<open>configURI\<close> unchanged, also
  when the partial alters the client or service block (and when the call throws
  on a \<^verbatim>\<open>null\<close> or \<^verbatim>\<open>undefined\<close> partial); \<^verbatim>\<open>engine\<close> is unchanged unless the
  partial's engine fragment is truthy, and is then the engine block of the merged
  document.
\<close>

theorem C10_setDefaults_frame:
  "name (snd (setDefaults p c)) = name c
   \<and> isClient (snd (setDefaults p c)) = isClient c
   \<and> isService (snd (setDefaults p c)) = isService c
   \<and> configURI (snd (setDefaults p c)) = configURI c
   \<and> (\<not> truthy (get_prop p ''engine'') \<longrightarrow> engine (snd (setDefaults p c)) = engine c)
   \<and> (truthy (get_prop p ''engine'') \<longrightarrow>
        engine (snd (setDefaults p c)) =
          get_prop (merge (rawConfig c)
            (JObj [(''client'', get_prop p ''client''), (''engine'', get_prop p ''engine''),
                   (''service'', get_prop p ''service'')])) ''engine'')"
  by (cases p) (simp_all add: setDefaults_def Let_def)

text \<open>
  C10, at the configuration of \<^verbatim>\<open>{client: {service: "pay"}, engine: {apiKey: "k"}}\<close>
  and the partial \<^verbatim>\<open>{client: {service: "other"}, service: {name: "svc"}}\<close>: the
  client block now names \<^verbatim>\<open>other\<close> and a service block exists, while \<^verbatim>\<open>name\<close> is
  still \<^verbatim>\<open>pay\<close>, \<^verbatim>\<open>isService\<close> is still false and \<^verbatim>\<open>engine\<close> is untouched.
\<close>

theorem C10_setDefaults_frame_witness:
  "\<not> truthy (get_prop
        (JObj [(''client'', JObj [(''service'', JStr ''other'')]),
               (''service'', JObj [(''name'', JStr ''svc'')])]) ''engine'')
   \<and> get_prop (client (snd (setDefaults
        (JObj [(''client'', JObj [(''service'', JStr ''other'')]),
               (''service'', JObj [(''name'', JStr ''svc'')])])
        \<lparr>rawConfig = JObj [(''client'', JObj [(''service'', JStr ''pay'')]),
                           (''engine'', JObj [(''apiKey'', JStr ''k'')])],
         configURI = None, isClient = True, isService = False,
         engine = JObj [(''apiKey'', JStr ''k'')], name = JStr ''pay'', service = JUndefined,
         client = JObj [(''service'', JStr ''pay'')], private_tag = None\<rparr>))) ''service''
       = JStr ''other''
   \<and> truthy (service (snd (setDefaults
        (JObj [(''client'', JObj [(''service'', JStr ''other'')]),
               (''service'', JObj [(''name'', JStr ''svc'')])])
        \<lparr>rawConfig = JObj [(''client'', JObj [(''service'', JStr ''pay'')]),
                           (''engine'', JObj [(''apiKey'', JStr ''k'')])],
         configURI = None, isClient = True, isService = False,
         engine = JObj [(''apiKey'', JStr ''k'')], name = JStr ''pay'', service = JUndefined,
         client = JObj [(''service'', JStr ''pay'')], private_tag = None\<rparr>)))
   \<and> name (snd (setDefaults
        (JObj [(''client'', JObj [(''service'', JStr ''other'')]),
               (''service'', JObj [(''name'', JStr ''svc'')])])
        \<lparr>rawConfig = JObj [(''client'', JObj [(''service'', JStr ''pay'')]),
                           (''engine'', JObj [(''apiKey'', JStr ''k'')])],
         configURI = None, isClient = True, isService = False,
         engine = JObj [(''apiKey'', JStr ''k'')], name = JStr ''pay'', service = JUndefined,
         client = JObj [(''service'', JStr ''pay'')], private_tag = None\<rparr>)) = JStr ''pay''
   \<and> isService (snd (setDefaults
        (JObj [(''client'', JObj [(''service'', JStr ''other'')]),
               (''service'', JObj [(''name'', JStr ''svc'')])])
        \<lparr>rawConfig = JObj [(''client'', JObj [(''service'', JStr ''pay'')]),
                           (''engine'', JObj [(''apiKey'', JStr ''k'')])],
         configURI = None, isClient = True, isService = False,
         engine = JObj [(''apiKey'', JStr ''k'')], name = JStr ''pay'', service = JUndefined,
         client = JObj [(''service'', JStr ''pay'')], private_tag = None\<rparr>)) = False
   \<and> engine (snd (setDefaults
        (JObj [(''client'', JObj [(''service'', JStr ''other'')]),
               (''service'', JObj [(''name'', JStr ''svc'')])])
        \<lparr>rawConfig = JObj [(''client'', JObj [(''service'', JStr ''pay'')]),
                           (''engine'', JObj [(''apiKey'', JStr ''k'')])],
         configURI = None, isClient = True, isService = False,
         engine = JObj [(''apiKey'', JStr ''k'')], name = JStr ''pay'', service = JUndefined,
         client = JObj [(''service'', JStr ''pay'')], private_tag = None\<rparr>))
       = JObj [(''apiKey'', JStr ''k'')]"
  using C10_setDefaults_frame
    [of "JObj [(''client'', JObj [(''service'', JStr ''other'')]),
               (''service'', JObj [(''name'', JStr ''svc'')])]"
        "\<lparr>rawConfig = JObj [(''client'', JObj [(''service'', JStr ''pay'')]),
                           (''engine'', JObj [(''apiKey'', JStr ''k'')])],
         configURI = None, isClient = True, isService = False,
         engine = JObj [(''apiKey'', JStr ''k'')], name = JStr ''pay'', service = JUndefined,
         client = JObj [(''service'', JStr ''pay'')], private_tag = None\<rparr>"]
  by (simp add: setDefaults_def merge_def merge_into_def Let_def)

subsection \<open>C2: a supplied type and a string specifier\<close>

text \<open>
  C2, as stated: with a supplied type and a client block whose \<^verbatim>\<open>service\<close> is a
  string specifier, the id part of the specifier (not the whole \<^verbatim>\<open>id@tag\<close>
  string) is the name and overrides every other name source. With the supplied
  type \<^verbatim>\<open>service\<close>, the whole specifier \<^verbatim>\<open>pay@beta\<close> becomes the name of the
  synthesized service block and of the result; and with the supplied type
  \<^verbatim>\<open>client\<close> and a document that also has a service block named \<^verbatim>\<open>other\<close>, the
  result is named \<^verbatim>\<open>other\<close>.
\<close>

theorem C2_whole_specifier_counterexample:
  "map_sum id name
     (loadConfig
        (example_environment
           (Some \<lparr>config = JObj [(''client'', JObj [(''service'', JStr ''pay@beta'')])],
                  filepath = ''/proj/package.json'', isEmpty = False\<rparr>) None)
        (example_settings (Some ''x'') (Some Service)))
   = Inr (JStr ''pay@beta'')
   \<and> fst (parseServiceSpecificer ''pay@beta'') = ''pay''
   \<and> map_sum id name
     (loadConfig
        (example_environment
           (Some \<lparr>config = JObj [(''client'', JObj [(''service'', JStr ''pay@beta'')]),
                                (''service'', JObj [(''name'', JStr ''other'')])],
                  filepath = ''/proj/package.json'', isEmpty = False\<rparr>) None)
        (example_settings (Some ''x'') (Some Client)))
   = Inr (JStr ''other'')"
  by (simp add: example_environment_def example_settings_def
      loadConfig_def envApiKey_def dotEnvPath_def nonempty_def getServiceFromKey_def
      or_else_def resolveTypeAndName_def synthesizeConfig_def spread_def of_string_option_def
      engineConfigOf_def applyDefaults_def merge_def merge_into_def new_ApolloConfig_def
      DefaultClientConfig_def DefaultConfigBase_def DefaultEngineStatsWindow_def
      DefaultEngineConfig_def DefaultServiceConfig_def getServiceName_def
      parseServiceSpecificer_def trim_def is_space_def Let_def)

text \<open>
  C2, amended: when the caller supplies a type and a loaded document has a
  client block whose \<^verbatim>\<open>service\<close> is a non-empty string specifier, resolution
  succeeds and honors the supplied type (the resolved document has a block of
  that type), and the name of the result is fixed by the document alone: the
  caller-supplied name and the secret-derived name play no part. With the
  supplied type \<^verbatim>\<open>service\<close> the name is the whole specifier string. With the
  supplied type \<^verbatim>\<open>client\<close> it is the name of the document's service block when
  the document has one, and the id part of the specifier otherwise.
\<close>

theorem C2_specifier_name:
  assumes found: "search env (getSearchPlaces (configFileName s)) (configPath s) = Some l"
    and doc: "config l = JObj cs" and wf: "wf_json (JObj cs)"
    and spec: "get_prop (get_prop (JObj cs) ''client'') ''service'' = JStr sp"
    and ne: "sp \<noteq> []"
    and ty: "typeSetting s = Some t"
  shows "\<exists>c. loadConfig env s = Inr c
          \<and> (t = Client \<longrightarrow> isClient c) \<and> (t = Service \<longrightarrow> isService c)
          \<and> name c =
              (if t = Service then JStr sp
               else if truthy (get_prop (JObj cs) ''service'')
                 then get_prop (get_prop (JObj cs) ''service'') ''name''
               else JStr (fst (parseServiceSpecificer sp)))"
proof -
  define key where "key = envApiKey env (configPath s)"
  define nm0 where "nm0 = or_else (nameSetting s) (getServiceFromKey key)"
  define R where "R = applyDefaults (engineConfigOf key) (synthesizeConfig t (Some l) (Some sp))"
  define S where "S = get_prop (JObj cs) ''service''"
  have d: "distinct (map fst cs)" using wf by simp
  have wfS: "wf_json S" unfolding S_def using wf by (rule get_prop_wf)
  have rt: "resolveTypeAndName (Some t) (Some l) nm0 = Inr (t, Some sp)"
    using spec by (simp add: resolveTypeAndName_found doc)
  from string_service_is_object [OF spec] obtain block where
    block: "get_prop (JObj cs) ''client'' = JObj block" ..
  have wff: "wf_json (JObj block)"
    using get_prop_wf [OF wf, of "''client''"] by (simp only: block)
  have nn: "\<not> nullish R" by (simp add: R_def)
  have run: "loadConfig env s = new_ApolloConfig R
        (Some (URI_file (resolve env
           [if nonempty (configPath s) then the (configPath s) else cwd env])))"
    using ne
    by (simp add: loadConfig_def found ty rt [unfolded nm0_def key_def] Let_def nonempty_def
        R_def key_def)
  show ?thesis
  proof (cases t)
    case Client
    define X where "X = JObj (AList.update ''service'' (JStr sp)
                (spread (spread [] DefaultConfigBase) (JObj block)))"
    define C where "C = mergeValue DefaultClientConfig X"
    define D where "D = mergeValue DefaultServiceConfig S"
    have syn: "synthesizeConfig t (Some l) (Some sp) = JObj (AList.update ''client'' X cs)"
      using d by (simp add: Client synthesizeConfig_def doc block spread_empty_object
          of_string_option_def X_def)
    have wfX: "wf_json X"
      unfolding X_def
    proof (intro wf_update wf_spread_object)
      show "wf_json (JObj (spread [] DefaultConfigBase))" by (rule wf_spread_base)
      show "wf_json (JObj block)" by (rule wff)
      show "wf_json (JStr sp)" by simp
    qed
    have tX: "truthy X" by (simp add: X_def)
    have d': "distinct (map fst (AList.update ''client'' X cs))"
      using d by (simp add: distinct_update)
    have cl: "get_prop R ''client'' = C"
      unfolding R_def syn C_def using wfX tX
      by (subst applyDefaults_reads [OF d']) simp_all
    have tC: "truthy C"
      unfolding C_def using tX by (rule truthy_mergeValue)
    have svc: "get_prop C ''service'' = JStr sp"
      unfolding C_def X_def
      by (subst client_defaults_no_service) (use wfX in \<open>simp_all add: X_def\<close>)
    have sv: "get_prop R ''service'' = (if truthy S then D else S)"
      unfolding R_def syn D_def using wfS
      by (subst applyDefaults_reads [OF d']) (simp_all add: S_def)
    have tD: "truthy D" if "truthy S"
      unfolding D_def using that by (rule truthy_mergeValue)
    have nD: "get_prop D ''name'' = get_prop S ''name''"
      unfolding D_def using wfS by (rule service_name_through_defaults)
    show ?thesis
      using tD
      by (simp add: run Client new_ApolloConfig_def nn getServiceName_def cl tC svc sv nD
          flip: S_def)
  next
    case Service
    define Y where "Y = AList.update ''name'' (JStr sp) (spread (spread [] DefaultConfigBase) S)"
    define D where "D = mergeValue DefaultServiceConfig (JObj Y)"
    have syn: "synthesizeConfig t (Some l) (Some sp) = JObj (AList.update ''service'' (JObj Y) cs)"
      using d by (simp add: Service synthesizeConfig_def doc spread_empty_object
          of_string_option_def Y_def S_def)
    have wfY: "wf_json (JObj Y)"
      unfolding Y_def
    proof (rule wf_update, rule wf_spread)
      show "wf_json (JObj (spread [] DefaultConfigBase))" by (rule wf_spread_base)
      show "wf_json S" by (rule wfS)
      show "wf_json (JStr sp)" by simp
    qed
    have nY: "get_prop (JObj Y) ''name'' = JStr sp" by (simp add: Y_def)
    have d': "distinct (map fst (AList.update ''service'' (JObj Y) cs))"
      using d by (simp add: distinct_update)
    have sv: "get_prop R ''service'' = D"
      unfolding R_def syn D_def using wfY
      by (subst applyDefaults_reads [OF d']) simp_all
    have tD: "truthy D"
      unfolding D_def by (rule truthy_mergeValue) simp
    have "get_prop D ''name'' = get_prop (JObj Y) ''name''"
      unfolding D_def using wfY by (intro service_defaults_no_name) (simp_all add: nY)
    then have nD: "get_prop D ''name'' = JStr sp" by (simp only: nY)
    show ?thesis
      by (simp add: run Service new_ApolloConfig_def nn getServiceName_def sv tD nD)
  qed
qed

text \<open>
  C2, at the document \<^verbatim>\<open>{client: {service: "pay@beta"}}\<close>, the API key
  \<^verbatim>\<open>service:cart\<close>, the supplied name \<^verbatim>\<open>x\<close> and the supplied type \<^verbatim>\<open>client\<close>: the
  result is a client project named \<^verbatim>\<open>pay\<close>.
\<close>

theorem C2_specifier_name_witness:
  "\<exists>c. loadConfig
          (example_environment
             (Some \<lparr>config = JObj [(''client'', JObj [(''service'', JStr ''pay@beta'')])],
                    filepath = ''/proj/package.json'', isEmpty = False\<rparr>)
             (Some ''service:cart''))
          (example_settings (Some ''x'') (Some Client)) = Inr c
        \<and> isClient c \<and> name c = JStr ''pay''"
proof -
  let ?l = "\<lparr>config = JObj [(''client'', JObj [(''service'', JStr ''pay@beta'')])],
                    filepath = ''/proj/package.json'', isEmpty = False\<rparr>"
  let ?env = "example_environment (Some ?l) (Some ''service:cart'')"
  let ?s = "example_settings (Some ''x'') (Some Client)"
  have found: "search ?env (getSearchPlaces (configFileName ?s)) (configPath ?s) = Some ?l"
    by (simp add: example_environment_def)
  have doc: "config ?l = JObj [(''client'', JObj [(''service'', JStr ''pay@beta'')])]"
    by simp
  have wf: "wf_json (JObj [(''client'', JObj [(''service'', JStr ''pay@beta'')])])"
    by simp
  have spec: "get_prop (get_prop (JObj [(''client'', JObj [(''service'', JStr ''pay@beta'')])])
                ''client'') ''service'' = JStr ''pay@beta''"
    by simp
  have ty: "typeSetting ?s = Some Client"
    by (simp add: example_settings_def)
  have id: "fst (parseServiceSpecificer ''pay@beta'') = ''pay''"
    by (simp add: parseServiceSpecificer_def trim_def is_space_def)
  from C2_specifier_name [OF found doc wf spec _ ty] show ?thesis
    by (simp add: id)
qed

subsection \<open>C3: the engine block\<close>

text \<open>
  C3, as stated: the API key of the secrets file takes precedence over whatever
  engine block the loaded document defines. Line 384 merges the document over
  the secret-derived engine configuration: with the key
  \<^verbatim>\<open>service:cart:secret\<close> in the secrets file and \<^verbatim>\<open>engine.apiKey = "doc-key"\<close> in the
  document, the resolved key is \<^verbatim>\<open>doc-key\<close>.
\<close>

theorem C3_document_key_wins_counterexample:
  "map_sum id (\<lambda>c. get_prop (engine c) ''apiKey'')
     (loadConfig
        (example_environment
           (Some \<lparr>config = JObj [(''client'', JObj [(''service'', JStr ''pay'')]),
                                (''engine'', JObj [(''apiKey'', JStr ''doc-key'')])],
                  filepath = ''/proj/package.json'', isEmpty = False\<rparr>)
           (Some ''service:cart:secret''))
        (example_settings None None))
   = Inr (JStr ''doc-key'')"
  by (simp add: example_environment_def example_settings_def
      loadConfig_def envApiKey_def dotEnvPath_def nonempty_def getServiceFromKey_def
      or_else_def resolveTypeAndName_def synthesizeConfig_def spread_def of_string_option_def
      engineConfigOf_def applyDefaults_def merge_def merge_into_def new_ApolloConfig_def
      DefaultClientConfig_def DefaultConfigBase_def DefaultEngineStatsWindow_def
      DefaultEngineConfig_def DefaultServiceConfig_def getServiceName_def
      parseServiceSpecificer_def trim_def is_space_def Let_def)

text \<open>
  C3, amended: in the configuration returned by \<^verbatim>\<open>loadConfig\<close> for a loaded
  document, the document's engine block takes precedence over the secret-derived
  engine configuration: every scalar engine value of the document, the API key
  included, is kept. The API key of the secrets file fills \<^verbatim>\<open>engine.apiKey\<close> only
  when the document has no engine block or an engine block without an API key,
  and the built-in default \<^verbatim>\<open>endpoint\<close> and \<^verbatim>\<open>frontend\<close> only fill the keys still
  absent after that.
\<close>

theorem C3_engine:
  assumes found: "search env (getSearchPlaces (configFileName s)) (configPath s) = Some l"
    and doc: "config l = JObj cs" and wf: "wf_json (JObj cs)"
    and ok: "loadConfig env s = Inr c"
  shows "(is_scalar (get_path (JObj cs) [''engine'', k]) \<longrightarrow>
            get_prop (engine c) k = get_path (JObj cs) [''engine'', k])
       \<and> (envApiKey env (configPath s) = Some key
          \<and> (get_prop (JObj cs) ''engine'' = JUndefined
              \<or> (\<exists>es. get_prop (JObj cs) ''engine'' = JObj es))
          \<and> get_path (JObj cs) [''engine'', ''apiKey''] = JUndefined \<longrightarrow>
            get_prop (engine c) ''apiKey'' = JStr key)
       \<and> ((k = ''endpoint'' \<or> k = ''frontend'')
          \<and> (get_prop (JObj cs) ''engine'' = JUndefined
              \<or> (\<exists>es. get_prop (JObj cs) ''engine'' = JObj es))
          \<and> get_path (JObj cs) [''engine'', k] = JUndefined \<longrightarrow>
            get_prop (engine c) k = get_prop DefaultEngineConfig k)"
proof -
  note eng = loadConfig_engine [OF ok found doc wf]
  have wfe: "wf_json (get_prop (JObj cs) ''engine'')" using wf by (rule get_prop_wf)
  have obj: "get_prop (engine c) j =
      mergeValue (get_prop DefaultEngineConfig j)
        (mergeValue (get_prop (get_prop (engineConfigOf (envApiKey env (configPath s))) ''engine'') j)
           (get_prop (JObj es) j))"
    if "get_prop (JObj cs) ''engine'' = JObj es" for es j
    using engine_layers_read [of es "envApiKey env (configPath s)" j] wfe that
    by (simp add: eng)
  have undef: "engine c = mergeValue DefaultEngineConfig
      (get_prop (engineConfigOf (envApiKey env (configPath s))) ''engine'')"
    if "get_prop (JObj cs) ''engine'' = JUndefined"
    using that by (simp add: eng)
  show ?thesis
  proof (intro conjI impI)
    assume sc: "is_scalar (get_path (JObj cs) [''engine'', k])"
    then obtain es where es: "get_prop (JObj cs) ''engine'' = JObj es"
      by (cases "get_prop (JObj cs) ''engine''") simp_all
    with sc show "get_prop (engine c) k = get_path (JObj cs) [''engine'', k]"
      by (simp add: obj [OF es] scalar_wins)
  next
    assume a: "envApiKey env (configPath s) = Some key
          \<and> (get_prop (JObj cs) ''engine'' = JUndefined
              \<or> (\<exists>es. get_prop (JObj cs) ''engine'' = JObj es))
          \<and> get_path (JObj cs) [''engine'', ''apiKey''] = JUndefined"
    then consider "get_prop (JObj cs) ''engine'' = JUndefined"
      | es where "get_prop (JObj cs) ''engine'' = JObj es" by blast
    then show "get_prop (engine c) ''apiKey'' = JStr key"
    proof cases
      case 1
      with a show ?thesis
        by (simp add: undef engineConfigOf_def DefaultEngineConfig_def)
    next
      case 2
      with a show ?thesis
        by (simp add: obj [OF 2] engineConfigOf_def DefaultEngineConfig_def)
    qed
  next
    assume a: "(k = ''endpoint'' \<or> k = ''frontend'')
          \<and> (get_prop (JObj cs) ''engine'' = JUndefined
              \<or> (\<exists>es. get_prop (JObj cs) ''engine'' = JObj es))
          \<and> get_path (JObj cs) [''engine'', k] = JUndefined"
    then consider "get_prop (JObj cs) ''engine'' = JUndefined"
      | es where "get_prop (JObj cs) ''engine'' = JObj es" by blast
    then show "get_prop (engine c) k = get_prop DefaultEngineConfig k"
    proof cases
      case 1
      with a show ?thesis
        by (cases "envApiKey env (configPath s)")
           (auto simp: undef engineConfigOf_def DefaultEngineConfig_def)
    next
      case 2
      with a show ?thesis
        by (cases "envApiKey env (configPath s)")
           (auto simp: obj [OF 2] engineConfigOf_def DefaultEngineConfig_def)
    qed
  qed
qed

text \<open>
  C3, at the document \<^verbatim>\<open>{client: {service: "pay"}, engine: {endpoint: "https://e"}}\<close>
  and the API key \<^verbatim>\<open>service:cart:secret\<close>: the endpoint is the document's, the
  API key is the secret's, the frontend is the default.
\<close>

theorem C3_engine_witness:
  "\<exists>c. loadConfig
          (example_environment
             (Some \<lparr>config = JObj [(''client'', JObj [(''service'', JStr ''pay'')]),
                                  (''engine'', JObj [(''endpoint'', JStr ''https://e'')])],
                    filepath = ''/proj/package.json'', isEmpty = False\<rparr>)
             (Some ''service:cart:secret''))
          (example_settings None None) = Inr c
        \<and> get_prop (engine c) ''endpoint'' = JStr ''https://e''
        \<and> get_prop (engine c) ''apiKey'' = JStr ''service:cart:secret''
        \<and> get_prop (engine c) ''frontend'' = JStr ''https://engine.apollographql.com''"
proof -
  let ?l = "\<lparr>config = JObj [(''client'', JObj [(''service'', JStr ''pay'')]),
                                  (''engine'', JObj [(''endpoint'', JStr ''https://e'')])],
                    filepath = ''/proj/package.json'', isEmpty = False\<rparr>"
  let ?env = "example_environment (Some ?l) (Some ''service:cart:secret'')"
  let ?s = "example_settings None None"
  have "\<exists>c. loadConfig ?env ?s = Inr c"
    by (simp add: example_environment_def example_settings_def loadConfig_def
        resolveTypeAndName_def new_ApolloConfig_def Let_def)
  then obtain c where c: "loadConfig ?env ?s = Inr c" ..
  have found: "search ?env (getSearchPlaces (configFileName ?s)) (configPath ?s) = Some ?l"
    by (simp add: example_environment_def)
  have doc: "config ?l = JObj [(''client'', JObj [(''service'', JStr ''pay'')]),
                                  (''engine'', JObj [(''endpoint'', JStr ''https://e'')])]"
    by simp
  have wf: "wf_json (JObj [(''client'', JObj [(''service'', JStr ''pay'')]),
                                  (''engine'', JObj [(''endpoint'', JStr ''https://e'')])])"
    by simp
  have key: "envApiKey ?env (configPath ?s) = Some ''service:cart:secret''"
    by (simp add: example_environment_def example_settings_def envApiKey_def nonempty_def)
  from C3_engine [OF found doc wf c, of "''endpoint''" "''service:cart:secret''"]
    C3_engine [OF found doc wf c, of "''frontend''" "''service:cart:secret''"] key
  have "get_prop (engine c) ''endpoint'' = JStr ''https://e''
        \<and> get_prop (engine c) ''apiKey'' = JStr ''service:cart:secret''
        \<and> get_prop (engine c) ''frontend'' = JStr ''https://engine.apollographql.com''"
    by (simp add: DefaultEngineConfig_def)
  with c show ?thesis by blast
qed

subsection \<open>C4: the failures of resolution\<close>




end
